theory Spec2Isabelle
  imports Complex_Main "HOL-Library.Sublist" "HOL-Library.AList"
begin

section \<open>Strings\<close>

text \<open>
  Python strings are modelled as \<^typ>\<open>string\<close>. A \<^typ>\<open>char\<close> stands for the Unicode
  code point of the same number (U+0000 to U+00FF), so the character classes below are
  the ones Python's \<^verbatim>\<open>str\<close> and \<^verbatim>\<open>re\<close> modules use on that range.
\<close>

definition is_space :: "char \<Rightarrow> bool" where
  \<comment> \<open>\<^verbatim>\<open>\s\<close> in a str pattern, and the characters \<^verbatim>\<open>str.strip()\<close> removes\<close>
  "is_space c =
     (let n = (of_char c :: nat)
      in (9 \<le> n \<and> n \<le> 13) \<or> (28 \<le> n \<and> n \<le> 32) \<or> n = 133 \<or> n = 160)"

definition is_word :: "char \<Rightarrow> bool" where
  \<comment> \<open>\<^verbatim>\<open>\w\<close> in a str pattern: alphanumeric characters and the underscore\<close>
  "is_word c =
     (let n = (of_char c :: nat)
      in (48 \<le> n \<and> n \<le> 57) \<or> (65 \<le> n \<and> n \<le> 90) \<or> n = 95 \<or> (97 \<le> n \<and> n \<le> 122)
         \<or> n = 170 \<or> n = 178 \<or> n = 179 \<or> n = 181 \<or> n = 185 \<or> n = 186
         \<or> (188 \<le> n \<and> n \<le> 190) \<or> (192 \<le> n \<and> n \<le> 214)
         \<or> (216 \<le> n \<and> n \<le> 246) \<or> (248 \<le> n \<and> n \<le> 255))"

definition lower_char :: "char \<Rightarrow> char" where
  "lower_char c =
     (let n = (of_char c :: nat)
      in if (65 \<le> n \<and> n \<le> 90) \<or> (192 \<le> n \<and> n \<le> 214) \<or> (216 \<le> n \<and> n \<le> 222)
         then char_of (n + 32) else c)"

definition upper_char :: "char \<Rightarrow> char" where
  \<comment> \<open>The upper-case forms of U+00B5, U+00DF and U+00FF lie outside the modelled range;
      the only caller passes a product name, which is ASCII.\<close>
  "upper_char c =
     (let n = (of_char c :: nat)
      in if (97 \<le> n \<and> n \<le> 122) \<or> (224 \<le> n \<and> n \<le> 246) \<or> (248 \<le> n \<and> n \<le> 254)
         then char_of (n - 32) else c)"

definition lower :: "string \<Rightarrow> string" where
  \<comment> \<open>\<^verbatim>\<open>str.lower()\<close>\<close>
  "lower s = map lower_char s"

definition capitalize :: "string \<Rightarrow> string" where
  \<comment> \<open>\<^verbatim>\<open>str.capitalize()\<close>\<close>
  "capitalize s = (case s of [] \<Rightarrow> [] | c # cs \<Rightarrow> upper_char c # lower cs)"

definition strip :: "string \<Rightarrow> string" where
  \<comment> \<open>\<^verbatim>\<open>str.strip()\<close>\<close>
  "strip s = rev (dropWhile is_space (rev (dropWhile is_space s)))"

fun contains :: "string \<Rightarrow> string \<Rightarrow> bool" where
  \<comment> \<open>\<^verbatim>\<open>sub in s\<close>\<close>
  "contains sub [] = (sub = [])"
| "contains sub (c # cs) = (prefix sub (c # cs) \<or> contains sub cs)"

function replace_all :: "string \<Rightarrow> string \<Rightarrow> string \<Rightarrow> string" where
  \<comment> \<open>\<^verbatim>\<open>s.replace(old, new)\<close>: non-overlapping occurrences, left to right\<close>
  "replace_all old new s =
     (if old = [] then new @ concat (map (\<lambda>c. c # new) s)
      else if s = [] then []
      else if prefix old s then new @ replace_all old new (drop (length old) s)
      else hd s # replace_all old new (tl s))"
  by pat_completeness auto
termination
  by (relation "measure (\<lambda>(old, new, s). length s)") auto

fun join :: "string \<Rightarrow> string list \<Rightarrow> string" where
  \<comment> \<open>\<^verbatim>\<open>sep.join(parts)\<close>\<close>
  "join sep [] = []"
| "join sep [p] = p"
| "join sep (p # q # ps) = p @ sep @ join sep (q # ps)"

section \<open>Regular expressions\<close>

text \<open>
  The patterns of the source use literals, groups of alternative literals,
  \<^verbatim>\<open>\s+\<close>, \<^verbatim>\<open>.+\<close> and a leading \<^verbatim>\<open>^\<close>. A pattern is a sequence of such atoms,
  with a flag for the anchor. \<^verbatim>\<open>re.search\<close> is only ever used as a truth value, so the
  matcher computes every way an atom can consume a prefix of the text and asks whether some
  way through the whole sequence exists.
\<close>

datatype atom = Lit string | Alt "string list" | Spaces | Anys

record regex =
  anchored :: bool
  atoms :: "atom list"

definition strip_prefix :: "string \<Rightarrow> string \<Rightarrow> string list" where
  "strip_prefix l s = (if prefix l s then [drop (length l) s] else [])"

definition strip_run :: "(char \<Rightarrow> bool) \<Rightarrow> string \<Rightarrow> string list" where
  \<comment> \<open>one or more characters of a class: every non-empty part of the leading run may be consumed\<close>
  "strip_run P s = map (\<lambda>n. drop (Suc n) s) [0..<length (takeWhile P s)]"

fun atom_rests :: "atom \<Rightarrow> string \<Rightarrow> string list" where
  "atom_rests (Lit l) s = strip_prefix l s"
| "atom_rests (Alt ls) s = concat (map (\<lambda>l. strip_prefix l s) ls)"
| "atom_rests Spaces s = strip_run is_space s"
| "atom_rests Anys s = strip_run (\<lambda>c. c \<noteq> CHR 0x0A) s"

fun atoms_rests :: "atom list \<Rightarrow> string \<Rightarrow> string list" where
  "atoms_rests [] s = [s]"
| "atoms_rests (a # as) s = concat (map (atoms_rests as) (atom_rests a s))"

definition match_here :: "atom list \<Rightarrow> string \<Rightarrow> bool" where
  "match_here as s = (atoms_rests as s \<noteq> [])"

fun match_somewhere :: "atom list \<Rightarrow> string \<Rightarrow> bool" where
  "match_somewhere as [] = match_here as []"
| "match_somewhere as (c # cs) = (match_here as (c # cs) \<or> match_somewhere as cs)"

definition re_search :: "regex \<Rightarrow> string \<Rightarrow> bool" where
  \<comment> \<open>\<^verbatim>\<open>re.search(pattern, s)\<close> is not \<^verbatim>\<open>None\<close>; without \<^verbatim>\<open>re.MULTILINE\<close>, \<^verbatim>\<open>^\<close>
      matches at position 0 only\<close>
  "re_search r s = (if anchored r then match_here (atoms r) s else match_somewhere (atoms r) s)"

section \<open>Query normalisation\<close>

definition sub_punct :: "string \<Rightarrow> string" where
  \<comment> \<open>\<^verbatim>\<open>re.sub(r'[^\w\s]', ' ', query)\<close>\<close>
  "sub_punct s = map (\<lambda>c. if is_word c \<or> is_space c then c else CHR '' '') s"

function collapse_spaces :: "string \<Rightarrow> string" where
  \<comment> \<open>\<^verbatim>\<open>re.sub(r'\s+', ' ', query)\<close>\<close>
  "collapse_spaces [] = []"
| "collapse_spaces (c # cs) =
     (if is_space c then CHR '' '' # collapse_spaces (dropWhile is_space cs)
      else c # collapse_spaces cs)"
  by pat_completeness auto
termination
  by (relation "measure length") (auto simp: length_dropWhile_le less_Suc_eq_le)

definition preprocess_query :: "string \<Rightarrow> string" where
  "preprocess_query query = strip (collapse_spaces (sub_punct query))"

definition tidy :: "string \<Rightarrow> bool" where
  \<comment> \<open>no two adjacent whitespace characters, and the blank is the only whitespace character\<close>
  "tidy s = (successively (\<lambda>a b. \<not> (is_space a \<and> is_space b)) s
             \<and> (\<forall>c\<in>set s. is_space c \<longrightarrow> c = CHR '' ''))"

section \<open>Query classification\<close>

definition how_to_patterns :: "regex list" where
  "how_to_patterns =
     [\<lparr>anchored = True, atoms = [Lit ''how'', Spaces, Lit ''to'', Spaces]\<rparr>,
      \<lparr>anchored = True, atoms = [Lit ''how'', Spaces, Alt [''do'', ''can'', ''would'', ''should''],
                                 Spaces, Lit ''i'', Spaces]\<rparr>,
      \<lparr>anchored = True, atoms = [Lit ''how'', Spaces, Alt [''do'', ''can'', ''would'', ''should''],
                                 Spaces, Lit ''you'', Spaces]\<rparr>,
      \<lparr>anchored = True, atoms = [Lit ''what's'', Spaces, Lit ''the'', Spaces,
                                 Lit ''best'', Spaces, Lit ''way'', Spaces, Lit ''to'', Spaces]\<rparr>,
      \<lparr>anchored = True, atoms = [Lit ''what'', Spaces, Lit ''is'', Spaces, Lit ''the'', Spaces,
                                 Lit ''process'', Spaces, Lit ''for'', Spaces]\<rparr>,
      \<lparr>anchored = True, atoms = [Lit ''how'', Spaces, Lit ''do'', Spaces, Lit ''i'', Spaces,
                                 Lit ''set'', Spaces, Lit ''up'', Spaces]\<rparr>,
      \<lparr>anchored = True, atoms = [Lit ''how'', Spaces, Lit ''do'', Spaces, Lit ''i'', Spaces,
                                 Lit ''create'', Spaces]\<rparr>]"

fun first_match :: "regex list \<Rightarrow> string \<Rightarrow> bool" where
  \<comment> \<open>the loop \<^verbatim>\<open>for pattern in patterns: if re.search(pattern, s): return True\<close>,
      followed by \<^verbatim>\<open>return False\<close>\<close>
  "first_match [] s = False"
| "first_match (p # ps) s = (if re_search p s then True else first_match ps s)"

definition is_how_to_question :: "string \<Rightarrow> bool" where
  "is_how_to_question query = first_match how_to_patterns (lower query)"

definition cdp_names :: "string list" where
  "cdp_names = [''segment'', ''mparticle'', ''lytics'', ''zeotap'']"

fun first_contained :: "string list \<Rightarrow> string \<Rightarrow> string option" where
  "first_contained [] s = None"
| "first_contained (n # ns) s = (if contains n s then Some n else first_contained ns s)"

definition extract_cdp_name :: "string \<Rightarrow> string option" where
  "extract_cdp_name query = first_contained cdp_names (lower query)"

definition comparison_patterns :: "regex list" where
  "comparison_patterns =
     [\<lparr>anchored = False, atoms = [Lit ''compare'']\<rparr>,
      \<lparr>anchored = False, atoms = [Lit ''difference between'']\<rparr>,
      \<lparr>anchored = False, atoms = [Lit ''how does '', Anys, Lit '' compare to'']\<rparr>,
      \<lparr>anchored = False, atoms = [Lit ''versus'']\<rparr>,
      \<lparr>anchored = False, atoms = [Lit ''vs'']\<rparr>]"

definition is_comparison_question :: "string \<Rightarrow> bool" where
  "is_comparison_question query = first_match comparison_patterns (lower query)"

definition extract_cdps_to_compare :: "string \<Rightarrow> string list option" where
  "extract_cdps_to_compare query =
     (let query_lower = lower query;
          mentioned_cdps = filter (\<lambda>cdp. contains cdp query_lower) cdp_names
      in if length mentioned_cdps \<ge> 2 then Some mentioned_cdps else None)"

definition feature_patterns :: "(regex \<times> string) list" where
  "feature_patterns =
     [(\<lparr>anchored = False, atoms = [Lit ''audience '', Alt [''creation'', ''building'', ''segmentation'']]\<rparr>,
       ''audience creation''),
      (\<lparr>anchored = False, atoms = [Lit ''data '', Alt [''integration'', ''ingestion'']]\<rparr>,
       ''data integration''),
      (\<lparr>anchored = False, atoms = [Lit ''user '', Alt [''profiles'', ''identification'']]\<rparr>,
       ''user profiles''),
      (\<lparr>anchored = False, atoms = [Alt [''source'', ''destination''], Lit '' '',
                                  Alt [''connection'', ''integration'']]\<rparr>,
       ''connections''),
      (\<lparr>anchored = False, atoms = [Lit ''event '', Alt [''tracking'', ''collection'']]\<rparr>,
       ''event tracking''),
      (\<lparr>anchored = False, atoms = [Lit ''privacy '', Alt [''compliance'', ''management'']]\<rparr>,
       ''privacy''),
      (\<lparr>anchored = False, atoms = [Lit ''identity '', Alt [''resolution'', ''matching'']]\<rparr>,
       ''identity resolution'')]"

fun first_feature :: "(regex \<times> string) list \<Rightarrow> string \<Rightarrow> string option" where
  "first_feature [] s = None"
| "first_feature ((pattern, feature) # ps) s =
     (if re_search pattern s then Some feature else first_feature ps s)"

definition extract_feature_to_compare :: "string \<Rightarrow> string option" where
  "extract_feature_to_compare query = first_feature feature_patterns (lower query)"

section \<open>The index\<close>

text \<open>
  Errors are values: every raise of the source is an \<open>Inl\<close> branch of the model.
\<close>

datatype py_error =
  FileNotFoundError | UnpicklingError | BadNpzFile | JSONDecodeError
  | KeyError | AttributeError | IndexError | ValueError | TypeError

text \<open>
  A chunk is the dictionary \<^verbatim>\<open>json.load\<close> builds for one record of
  \<^verbatim>\<open>chunks_metadata.json\<close>: keys in insertion order, \<open>map_of\<close> reads a key and
  \<open>AList.update\<close> is the item assignment \<^verbatim>\<open>d[k] = v\<close>.
\<close>

datatype pyval =
  PNone | PBool bool | PInt int | PFloat real | PStr string
  | PList "pyval list" | PDict "(string \<times> pyval) list"

type_synonym chunk = "(string \<times> pyval) list"

text \<open>
  The vectorizer and the sparse matrix belong to scikit-learn and SciPy. The vectorizer
  object is modelled by its \<^verbatim>\<open>transform\<close> method on a one-element list, the matrix by its
  row count and by the one operation applied to it, \<^verbatim>\<open>np.dot(M, q.T).toarray().flatten()\<close>.
  Both may raise. Scores are finite doubles, read as the real numbers they denote, so that
  comparisons are exact; no arithmetic on scores happens in the modelled code.
\<close>

record 'q csr_matrix =
  n_rows :: nat
  dot_flat :: "'q \<Rightarrow> py_error + real list"

text \<open>
  The engine object. Its \<^verbatim>\<open>chunks\<close> attribute is whatever \<^verbatim>\<open>json.load\<close> returned, so
  its type is a parameter: a \<^typ>\<open>pyval\<close> when the index is loaded, a list of dictionaries
  where the chunks are searched, a list of addresses where they live in a store.
\<close>

record ('q, 'c) engine =
  index_dir :: string
  vectorizer :: "string \<Rightarrow> py_error + 'q"
  chunk_vectors :: "'q csr_matrix"
  chunks :: 'c

text \<open>
  What \<^verbatim>\<open>load_index\<close> sees of the file system: for each path, the outcome of opening the
  file and deserialising it (\<^verbatim>\<open>pickle.load\<close>; \<^verbatim>\<open>np.load\<close> followed by the
  \<^verbatim>\<open>csr_matrix\<close> constructor; \<^verbatim>\<open>json.load\<close>).
\<close>

record 'q files =
  pickle_load :: "string \<Rightarrow> py_error + (string \<Rightarrow> py_error + 'q)"
  npz_load :: "string \<Rightarrow> py_error + 'q csr_matrix"
  json_load :: "string \<Rightarrow> py_error + pyval"

definition path_join :: "string \<Rightarrow> string \<Rightarrow> string" where
  \<comment> \<open>\<^verbatim>\<open>os.path.join(a, b)\<close> for a relative \<open>b\<close>\<close>
  "path_join a b = (if a = [] \<or> last a = CHR ''/'' then a @ b else a @ ''/'' @ b)"

fun py_len :: "pyval \<Rightarrow> py_error + nat" where
  \<comment> \<open>\<^verbatim>\<open>len(x)\<close>; the keys of a dictionary are distinct\<close>
  "py_len (PStr s) = Inr (length s)"
| "py_len (PList xs) = Inr (length xs)"
| "py_len (PDict kvs) = Inr (length kvs)"
| "py_len PNone = Inl TypeError"
| "py_len (PBool b) = Inl TypeError"
| "py_len (PInt i) = Inl TypeError"
| "py_len (PFloat x) = Inl TypeError"

function str_nat :: "nat \<Rightarrow> string" where
  \<comment> \<open>the decimal digits of a number, as an f-string formats an \<^verbatim>\<open>int\<close>\<close>
  "str_nat n =
     (if n < 10 then [char_of (48 + n)]
      else str_nat (n div 10) @ [char_of (48 + n mod 10)])"
  by pat_completeness auto
termination
  by (relation "measure id") auto

declare str_nat.simps [simp del]

definition loaded_message :: "nat \<Rightarrow> string" where
  \<comment> \<open>what \<^verbatim>\<open>print(f"Loaded index with {n} chunks")\<close> writes\<close>
  "loaded_message n = ''Loaded index with '' @ str_nat n @ '' chunks'' @ [CHR 0x0A]"

definition load_index ::
  "'q files \<Rightarrow> string \<Rightarrow> py_error + (('q, pyval) engine \<times> string)" where
  \<comment> \<open>\<^verbatim>\<open>QueryEngine(index_dir)\<close>: the constructor stores the directory and calls
      \<^verbatim>\<open>load_index\<close>. The result is the engine and the text written to standard output.
      The last statement takes \<^verbatim>\<open>len(self.chunks)\<close>, which raises for a value without
      a length.\<close>
  "load_index fs dir =
     (case pickle_load fs (path_join dir ''vectorizer.pkl'') of
        Inl e \<Rightarrow> Inl e
      | Inr v \<Rightarrow>
     (case npz_load fs (path_join dir ''chunk_vectors.npz'') of
        Inl e \<Rightarrow> Inl e
      | Inr m \<Rightarrow>
     (case json_load fs (path_join dir ''chunks_metadata.json'') of
        Inl e \<Rightarrow> Inl e
      | Inr cs \<Rightarrow>
     (case py_len cs of
        Inl e \<Rightarrow> Inl e
      | Inr n \<Rightarrow>
          Inr (\<lparr>index_dir = dir, vectorizer = v, chunk_vectors = m, chunks = cs\<rparr>,
               loaded_message n)))))"

text \<open>
  The functions below read the chunks as a list of dictionaries: they are modelled for
  metadata that is an array of objects, which is what the indexer dumps.
\<close>

fun dict_of :: "pyval \<Rightarrow> chunk option" where
  "dict_of (PDict d) = Some d"
| "dict_of v = None"

definition chunk_records :: "pyval \<Rightarrow> chunk list option" where
  "chunk_records v =
     (case v of
        PList xs \<Rightarrow> if list_all (\<lambda>x. dict_of x \<noteq> None) xs
                   then Some (map (\<lambda>x. the (dict_of x)) xs) else None
      | _ \<Rightarrow> None)"

definition serving :: "('q, pyval) engine \<Rightarrow> ('q, chunk list) engine option" where
  \<comment> \<open>the loaded engine as the search functions see it\<close>
  "serving eng =
     (case chunk_records (chunks eng) of
        None \<Rightarrow> None
      | Some cs \<Rightarrow>
          Some \<lparr>index_dir = index_dir eng, vectorizer = vectorizer eng,
                chunk_vectors = chunk_vectors eng, chunks = cs\<rparr>)"

section \<open>Search\<close>

definition relevance_floor :: real where
  \<comment> \<open>the double denoted by the literal \<^verbatim>\<open>0.1\<close>\<close>
  "relevance_floor = 3602879701896397 / 36028797018963968"

definition truthy :: "string option \<Rightarrow> bool" where
  \<comment> \<open>\<^verbatim>\<open>if x:\<close> for a string or \<^verbatim>\<open>None\<close>\<close>
  "truthy x = (case x of None \<Rightarrow> False | Some s \<Rightarrow> s \<noteq> [])"

definition py_take :: "int \<Rightarrow> 'a list \<Rightarrow> 'a list" where
  \<comment> \<open>the slice \<^verbatim>\<open>xs[:k]\<close>; a negative \<open>k\<close> counts from the end\<close>
  "py_take k xs = (if 0 \<le> k then take (nat k) xs else take (length xs - nat (- k)) xs)"

definition sorted_desc :: "(nat \<times> real) list \<Rightarrow> (nat \<times> real) list" where
  \<comment> \<open>\<^verbatim>\<open>sorted(xs, key=lambda x: x[1], reverse=True)\<close>: CPython reverses the list, sorts it
      stably in ascending order of the key, and reverses the result\<close>
  "sorted_desc xs = rev (sort_key snd (rev xs))"

definition source_lower :: "chunk \<Rightarrow> py_error + string" where
  \<comment> \<open>\<^verbatim>\<open>chunk['source'].lower()\<close>\<close>
  "source_lower c =
     (case map_of c ''source'' of
        None \<Rightarrow> Inl KeyError
      | Some (PStr s) \<Rightarrow> Inr (lower s)
      | Some _ \<Rightarrow> Inl AttributeError)"

fun cdp_indices :: "string \<Rightarrow> nat \<Rightarrow> chunk list \<Rightarrow> py_error + nat list" where
  \<comment> \<open>the comprehension over \<^verbatim>\<open>enumerate(self.chunks)\<close>, from position \<open>i\<close> on\<close>
  "cdp_indices cdp_filter i [] = Inr []"
| "cdp_indices cdp_filter i (c # cs) =
     (case source_lower c of
        Inl e \<Rightarrow> Inl e
      | Inr s \<Rightarrow>
          (case cdp_indices cdp_filter (Suc i) cs of
             Inl e \<Rightarrow> Inl e
           | Inr js \<Rightarrow> Inr (if s = lower cdp_filter then i # js else js)))"

fun cdp_similarities :: "real list \<Rightarrow> nat list \<Rightarrow> py_error + (nat \<times> real) list" where
  \<comment> \<open>\<^verbatim>\<open>[(i, similarities[i]) for i in cdp_indices]\<close>\<close>
  "cdp_similarities sims [] = Inr []"
| "cdp_similarities sims (i # js) =
     (if i < length sims
      then (case cdp_similarities sims js of
              Inl e \<Rightarrow> Inl e
            | Inr ps \<Rightarrow> Inr ((i, sims ! i) # ps))
      else Inl IndexError)"

definition top_indices ::
  "real list \<Rightarrow> chunk list \<Rightarrow> int \<Rightarrow> string option \<Rightarrow> py_error + (nat \<times> real) list" where
  "top_indices sims cs top_k cdp_filter =
     (if truthy cdp_filter
      then (case cdp_indices (the cdp_filter) 0 cs of
              Inl e \<Rightarrow> Inl e
            | Inr js \<Rightarrow>
                (case cdp_similarities sims js of
                   Inl e \<Rightarrow> Inl e
                 | Inr ps \<Rightarrow> Inr (py_take top_k (sorted_desc ps))))
      else Inr (py_take top_k (sorted_desc (zip [0..<length sims] sims))))"

definition with_score :: "chunk \<Rightarrow> real \<Rightarrow> chunk" where
  \<comment> \<open>the copy of a chunk after \<^verbatim>\<open>chunk['score'] = float(score)\<close>\<close>
  "with_score c score = AList.update ''score'' (PFloat score) c"

fun collect_results :: "chunk list \<Rightarrow> (nat \<times> real) list \<Rightarrow> py_error + chunk list" where
  \<comment> \<open>the loop that builds \<^verbatim>\<open>results\<close>\<close>
  "collect_results cs [] = Inr []"
| "collect_results cs ((idx, score) # ps) =
     (if score > relevance_floor
      then (if idx < length cs
            then (case collect_results cs ps of
                    Inl e \<Rightarrow> Inl e
                  | Inr rs \<Rightarrow> Inr (with_score (cs ! idx) score # rs))
            else Inl IndexError)
      else collect_results cs ps)"

definition similarities :: "('q, 'c) engine \<Rightarrow> string \<Rightarrow> py_error + real list" where
  "similarities eng processed_query =
     (case vectorizer eng processed_query of
        Inl e \<Rightarrow> Inl e
      | Inr query_vector \<Rightarrow> dot_flat (chunk_vectors eng) query_vector)"

definition search ::
  "('q, chunk list) engine \<Rightarrow> string \<Rightarrow> int \<Rightarrow> string option \<Rightarrow> py_error + chunk list" where
  "search eng query top_k cdp_filter =
     (case similarities eng (preprocess_query query) of
        Inl e \<Rightarrow> Inl e
      | Inr sims \<Rightarrow>
          (case top_indices sims (chunks eng) top_k cdp_filter of
             Inl e \<Rightarrow> Inl e
           | Inr ranked \<Rightarrow> collect_results (chunks eng) ranked))"

text \<open>
  Properties of an index: the numeric library calls succeed and give one score per matrix
  row, the matrix has one row per chunk, a chunk has a string under \<^verbatim>\<open>source\<close>.
\<close>

definition scores_per_row :: "('q, 'c) engine \<Rightarrow> bool" where
  "scores_per_row eng =
     (\<forall>text. \<exists>sims. similarities eng text = Inr sims \<and> length sims = n_rows (chunk_vectors eng))"

definition rows_aligned :: "('q, 'c list) engine \<Rightarrow> bool" where
  "rows_aligned eng = (n_rows (chunk_vectors eng) = length (chunks eng))"

definition has_source :: "chunk \<Rightarrow> bool" where
  "has_source c = (case map_of c ''source'' of Some (PStr s) \<Rightarrow> True | _ \<Rightarrow> False)"

section \<open>Search on a store of dictionary objects\<close>

text \<open>
  To speak about mutation, dictionaries live in a store and the engine's chunk list holds
  their addresses. \<^verbatim>\<open>dict.copy()\<close> allocates a new object; the item assignment writes
  to the object at the given address.
\<close>

type_synonym store = "chunk list"

definition dict_copy :: "store \<Rightarrow> nat \<Rightarrow> nat \<times> store" where
  "dict_copy h a = (length h, h @ [h ! a])"

definition dict_setitem :: "store \<Rightarrow> nat \<Rightarrow> string \<Rightarrow> pyval \<Rightarrow> store" where
  "dict_setitem h a k v = h[a := AList.update k v (h ! a)]"

fun collect_results_st ::
  "store \<Rightarrow> nat list \<Rightarrow> (nat \<times> real) list \<Rightarrow> (py_error + nat list) \<times> store" where
  "collect_results_st h refs [] = (Inr [], h)"
| "collect_results_st h refs ((idx, score) # ps) =
     (if score > relevance_floor
      then (if idx < length refs
            then (let (a, h1) = dict_copy h (refs ! idx);
                      h2 = dict_setitem h1 a ''score'' (PFloat score)
                  in (case collect_results_st h2 refs ps of
                        (Inl e, h') \<Rightarrow> (Inl e, h')
                      | (Inr rs, h') \<Rightarrow> (Inr (a # rs), h')))
            else (Inl IndexError, h))
      else collect_results_st h refs ps)"

definition search_st ::
  "('q, nat list) engine \<Rightarrow> store \<Rightarrow> string \<Rightarrow> int \<Rightarrow> string option
     \<Rightarrow> (py_error + nat list) \<times> store" where
  "search_st eng h query top_k cdp_filter =
     (case similarities eng (preprocess_query query) of
        Inl e \<Rightarrow> (Inl e, h)
      | Inr sims \<Rightarrow>
          (case top_indices sims (map (nth h) (chunks eng)) top_k cdp_filter of
             Inl e \<Rightarrow> (Inl e, h)
           | Inr ranked \<Rightarrow> collect_results_st h (chunks eng) ranked))"

definition deref :: "store \<Rightarrow> ('q, nat list) engine \<Rightarrow> ('q, chunk list) engine" where
  \<comment> \<open>the engine with every chunk address replaced by the dictionary stored there\<close>
  "deref h eng =
     \<lparr>index_dir = index_dir eng, vectorizer = vectorizer eng,
      chunk_vectors = chunk_vectors eng, chunks = map (nth h) (chunks eng)\<rparr>"

section \<open>Answering a query\<close>

datatype outcome =
  NotHowTo string
  | NoResults string
  | Results "string option" string "chunk list"
  | ComparisonError string
  | Comparison string "string list" "(string \<times> chunk list) list"

definition not_how_to_message :: string where
  "not_how_to_message =
     ''I'm a CDP support agent. I can help answer how-to questions about Segment, mParticle, Lytics, and Zeotap. Please ask me questions like 'How do I set up a new source in Segment?' or 'How can I create a user profile in mParticle?'' @ [CHR 0x27]"

definition no_results_message :: "string \<Rightarrow> string option \<Rightarrow> string" where
  "no_results_message query cdp_name =
     (if truthy cdp_name
      then ''I couldn't find specific information about how to ''
           @ strip (replace_all ''how to'' [] (replace_all ''how do i'' [] (lower query)))
           @ '' in '' @ capitalize (the cdp_name)
           @ ''. Could you try rephrasing your question or ask about a different feature?''
      else ''I couldn't find specific information about that. Could you specify which CDP (Segment, mParticle, Lytics, or Zeotap) you're asking about?'')"

definition query :: "('q, chunk list) engine \<Rightarrow> string \<Rightarrow> py_error + outcome" where
  "query eng q =
     (if \<not> is_how_to_question q then Inr (NotHowTo not_how_to_message)
      else (let cdp_name = extract_cdp_name q
            in (case search eng q 3 cdp_name of
                  Inl e \<Rightarrow> Inl e
                | Inr results \<Rightarrow>
                    if results = [] then Inr (NoResults (no_results_message q cdp_name))
                    else Inr (Results cdp_name q results))))"

section \<open>Comparing products\<close>

definition need_cdps_message :: string where
  "need_cdps_message =
     ''I can compare different CDPs, but I need to know which ones you want to compare. Please mention at least two CDPs from Segment, mParticle, Lytics, and Zeotap.''"

definition need_feature_message :: "string list \<Rightarrow> string" where
  "need_feature_message cdps =
     ''I can compare '' @ join '', '' cdps
     @ '', but I need to know which feature you want to compare. For example, you can ask about audience creation, data integration, user profiles, etc.''"

definition not_enough_message :: "string \<Rightarrow> string list \<Rightarrow> string" where
  "not_enough_message feature cdps =
     ''I couldn't find enough information to compare '' @ feature @ '' between ''
     @ join '', '' cdps @ ''. Could you try asking about a different feature?''"

definition search_query :: "string \<Rightarrow> string \<Rightarrow> string" where
  "search_query feature cdp = ''how to '' @ feature @ '' in '' @ cdp"

fun comparison_results ::
  "('q, chunk list) engine \<Rightarrow> string \<Rightarrow> string list \<Rightarrow> (string \<times> chunk list) list
     \<Rightarrow> py_error + (string \<times> chunk list) list" where
  \<comment> \<open>the loop over \<^verbatim>\<open>cdps_to_compare\<close>, with the dictionary built so far\<close>
  "comparison_results eng feature [] acc = Inr acc"
| "comparison_results eng feature (cdp # cdps) acc =
     (case search eng (search_query feature cdp) 2 (Some cdp) of
        Inl e \<Rightarrow> Inl e
      | Inr results \<Rightarrow>
          comparison_results eng feature cdps
            (if results \<noteq> [] then AList.update cdp results acc else acc))"

definition compare_cdps :: "('q, chunk list) engine \<Rightarrow> string \<Rightarrow> py_error + outcome option" where
  "compare_cdps eng q =
     (if \<not> is_comparison_question q then Inr None
      else (case extract_cdps_to_compare q of
              None \<Rightarrow> Inr (Some (ComparisonError need_cdps_message))
            | Some cdps \<Rightarrow>
                if cdps = [] then Inr (Some (ComparisonError need_cdps_message))
                else (case extract_feature_to_compare q of
                        None \<Rightarrow> Inr (Some (ComparisonError (need_feature_message cdps)))
                      | Some feature \<Rightarrow>
                          if feature = [] then Inr (Some (ComparisonError (need_feature_message cdps)))
                          else (case comparison_results eng feature cdps [] of
                                  Inl e \<Rightarrow> Inl e
                                | Inr data \<Rightarrow>
                                    if data = []
                                    then Inr (Some (ComparisonError (not_enough_message feature cdps)))
                                    else Inr (Some (Comparison feature cdps data))))))"

section \<open>Ranking order\<close>

definition ranks_before :: "nat \<times> real \<Rightarrow> nat \<times> real \<Rightarrow> bool" where
  \<comment> \<open>on pairs of a corpus position and a score: the higher score first, and for equal
      scores the earlier corpus position first\<close>
  "ranks_before a b = (snd a > snd b \<or> (snd a = snd b \<and> fst a < fst b))"

section \<open>A small index\<close>

text \<open>
  Four chunks of two products, and numeric objects that give the scores
  0.5, 0.9, 0.5 and 0.05 to any query: two chunks tie, and one lies under the floor.
\<close>

definition example_chunks :: "chunk list" where
  "example_chunks =
     [[(''source'', PStr ''segment''), (''url'', PStr ''https://segment.example/a''),
       (''title'', PStr ''Sources''), (''chunk_text'', PStr ''add a source''),
       (''chunk_id'', PInt 0)],
      [(''source'', PStr ''lytics''), (''url'', PStr ''https://lytics.example/a''),
       (''title'', PStr ''Audiences''), (''chunk_text'', PStr ''build an audience''),
       (''chunk_id'', PInt 0)],
      [(''source'', PStr ''Segment''), (''url'', PStr ''https://segment.example/a''),
       (''title'', PStr ''Sources''), (''chunk_text'', PStr ''name the source''),
       (''chunk_id'', PInt 1)],
      [(''source'', PStr ''lytics''), (''url'', PStr ''https://lytics.example/b''),
       (''title'', PStr ''Profiles''), (''chunk_text'', PStr ''user profiles''),
       (''chunk_id'', PInt 0)]]"

definition unit_vectorizer :: "string \<Rightarrow> py_error + unit" where
  "unit_vectorizer text = Inr ()"

definition four_row_matrix :: "unit csr_matrix" where
  "four_row_matrix = \<lparr>n_rows = 4, dot_flat = (\<lambda>q. Inr [1/2, 9/10, 1/2, 1/20])\<rparr>"

definition two_row_matrix :: "unit csr_matrix" where
  "two_row_matrix = \<lparr>n_rows = 2, dot_flat = (\<lambda>q. Inr [1/2, 9/10])\<rparr>"

definition example_engine :: "(unit, chunk list) engine" where
  "example_engine =
     \<lparr>index_dir = ''data/index'', vectorizer = unit_vectorizer,
      chunk_vectors = four_row_matrix, chunks = example_chunks\<rparr>"

definition example_refs :: "(unit, nat list) engine" where
  \<comment> \<open>the same engine over the store \<open>example_chunks\<close>, holding the addresses 0 to 3\<close>
  "example_refs =
     \<lparr>index_dir = ''data/index'', vectorizer = unit_vectorizer,
      chunk_vectors = four_row_matrix, chunks = [0, 1, 2, 3]\<rparr>"

definition example_files :: "unit files" where
  "example_files =
     \<lparr>pickle_load = (\<lambda>p. if p = ''data/index/vectorizer.pkl'' then Inr unit_vectorizer
                          else Inl FileNotFoundError),
      npz_load = (\<lambda>p. if p = ''data/index/chunk_vectors.npz'' then Inr four_row_matrix
                       else Inl FileNotFoundError),
      json_load = (\<lambda>p. if p = ''data/index/chunks_metadata.json''
                        then Inr (PList (map PDict example_chunks))
                        else Inl FileNotFoundError)\<rparr>"

definition example_loaded :: "(unit, pyval) engine" where
  "example_loaded =
     \<lparr>index_dir = ''data/index'', vectorizer = unit_vectorizer,
      chunk_vectors = four_row_matrix, chunks = PList (map PDict example_chunks)\<rparr>"

text \<open>An index directory whose matrix has two rows for a single chunk.\<close>

definition misaligned_files :: "unit files" where
  "misaligned_files =
     \<lparr>pickle_load = (\<lambda>p. if p = ''data/index/vectorizer.pkl'' then Inr unit_vectorizer
                          else Inl FileNotFoundError),
      npz_load = (\<lambda>p. if p = ''data/index/chunk_vectors.npz'' then Inr two_row_matrix
                       else Inl FileNotFoundError),
      json_load = (\<lambda>p. if p = ''data/index/chunks_metadata.json''
                        then Inr (PList (map PDict (take 1 example_chunks)))
                        else Inl FileNotFoundError)\<rparr>"

definition misaligned_engine :: "(unit, pyval) engine" where
  "misaligned_engine =
     \<lparr>index_dir = ''data/index'', vectorizer = unit_vectorizer,
      chunk_vectors = two_row_matrix, chunks = PList (map PDict (take 1 example_chunks))\<rparr>"

text \<open>
  Two indexes whose rows are aligned with the chunk list: in the first the only chunk has
  no \<^verbatim>\<open>source\<close>, in the second the matrix product raises.
\<close>

definition one_row_matrix :: "unit csr_matrix" where
  "one_row_matrix = \<lparr>n_rows = 1, dot_flat = (\<lambda>q. Inr [1/2])\<rparr>"

definition no_source_engine :: "(unit, chunk list) engine" where
  "no_source_engine =
     \<lparr>index_dir = ''data/index'', vectorizer = unit_vectorizer,
      chunk_vectors = one_row_matrix,
      chunks = [[(''url'', PStr ''https://segment.example/a''), (''title'', PStr ''Sources''),
                 (''chunk_text'', PStr ''add a source''), (''chunk_id'', PInt 0)]]\<rparr>"

definition raising_matrix :: "unit csr_matrix" where
  "raising_matrix = \<lparr>n_rows = 4, dot_flat = (\<lambda>q. Inl ValueError)\<rparr>"

definition raising_engine :: "(unit, chunk list) engine" where
  "raising_engine =
     \<lparr>index_dir = ''data/index'', vectorizer = unit_vectorizer,
      chunk_vectors = raising_matrix, chunks = example_chunks\<rparr>"

section \<open>Properties of query normalisation\<close>

lemma is_space_blank: "is_space (CHR '' '')"
  by (simp add: is_space_def)

lemma dropWhile_id_hd: "s = [] \<or> \<not> P (hd s) \<Longrightarrow> dropWhile P s = s"
  by (cases s) auto

lemma strip_idem: "strip (strip u) = strip u"
proof -
  define v where "v = dropWhile is_space u"
  define w where "w = dropWhile is_space (rev v)"
  have su: "strip u = rev w" by (simp add: strip_def v_def w_def)
  have "dropWhile is_space (rev w) = rev w"
  proof (cases "w = []")
    case True then show ?thesis by simp
  next
    case False
    then have "rev v \<noteq> []" by (auto simp: w_def)
    have "\<exists>p. rev v = p @ w" unfolding w_def by (metis takeWhile_dropWhile_id)
    then obtain p where p: "rev v = p @ w" by blast
    then have "last w = last (rev v)" using False by simp
    also have "\<dots> = hd v" using \<open>rev v \<noteq> []\<close> by (simp add: last_rev)
    finally have "last w = hd v" .
    moreover have "\<not> is_space (hd v)" using \<open>rev v \<noteq> []\<close> unfolding v_def by (simp add: hd_dropWhile)
    ultimately have "\<not> is_space (hd (rev w))" using False by (simp add: hd_rev)
    then show ?thesis by (intro dropWhile_id_hd) simp
  qed
  moreover have "dropWhile is_space w = w" by (simp add: w_def)
  ultimately have "strip (rev w) = rev w" by (simp add: strip_def)
  then show ?thesis unfolding su .
qed

lemma set_strip: "set (strip u) \<subseteq> set u"
  by (auto simp: strip_def dest!: set_dropWhileD)

lemma collapse_spaces_Nil_iff: "collapse_spaces u = [] \<longleftrightarrow> u = []"
  by (cases u) auto

lemma hd_collapse_spaces: "u \<noteq> [] \<Longrightarrow> is_space (hd (collapse_spaces u)) = is_space (hd u)"
  by (cases u) (auto simp: is_space_blank)

lemma set_collapse_spaces: "c \<in> set (collapse_spaces u) \<Longrightarrow> (c \<in> set u \<and> \<not> is_space c) \<or> c = CHR '' ''"
proof (induction u rule: collapse_spaces.induct)
  case 1 then show ?case by simp
next
  case (2 c' cs)
  then show ?case by (auto split: if_splits dest: set_dropWhileD)
qed

lemma tidy_collapse_spaces: "tidy (collapse_spaces u)"
proof (induction u rule: collapse_spaces.induct)
  case 1 show ?case by (simp add: tidy_def)
next
  case (2 c cs)
  show ?case
  proof (cases "is_space c")
    case True
    let ?r = "dropWhile is_space cs"
    have "tidy (collapse_spaces ?r)" using 2 True by simp
    moreover have "collapse_spaces ?r = [] \<or> \<not> is_space (hd (collapse_spaces ?r))"
      by (metis collapse_spaces_Nil_iff hd_collapse_spaces hd_dropWhile)
    ultimately show ?thesis using True by (auto simp: tidy_def successively_Cons)
  next
    case False
    then show ?thesis using 2 by (auto simp: tidy_def successively_Cons)
  qed
qed

lemma collapse_spaces_tidy: "tidy s \<Longrightarrow> collapse_spaces s = s"
proof (induction s)
  case Nil show ?case by simp
next
  case (Cons c cs)
  then have t: "tidy cs" by (auto simp: tidy_def successively_Cons)
  show ?case
  proof (cases "is_space c")
    case True
    then have "c = CHR '' ''" using Cons.prems by (simp add: tidy_def)
    moreover have "cs = [] \<or> \<not> is_space (hd cs)" using Cons.prems True by (auto simp: tidy_def successively_Cons)
    then have "dropWhile is_space cs = cs" by (rule dropWhile_id_hd)
    ultimately show ?thesis using True Cons.IH t by simp
  next
    case False then show ?thesis using Cons.IH t by simp
  qed
qed

lemma tidy_dropWhile: "tidy s \<Longrightarrow> tidy (dropWhile P s)"
proof -
  assume a: "tidy s"
  have "s = takeWhile P s @ dropWhile P s" by simp
  then have "successively (\<lambda>a b. \<not> (is_space a \<and> is_space b)) (takeWhile P s @ dropWhile P s)"
    using a by (simp add: tidy_def)
  then have "successively (\<lambda>a b. \<not> (is_space a \<and> is_space b)) (dropWhile P s)"
    unfolding successively_append_iff by blast
  then show ?thesis using a by (auto simp: tidy_def dest: set_dropWhileD)
qed

lemma tidy_rev: "tidy (rev s) = tidy s"
proof -
  have eq: "(\<lambda>x y. \<not> (is_space y \<and> is_space x)) = (\<lambda>a b. \<not> (is_space a \<and> is_space b))"
    by (intro ext) auto
  show ?thesis unfolding tidy_def successively_rev eq by simp
qed

lemma tidy_strip: "tidy s \<Longrightarrow> tidy (strip s)"
  by (simp add: strip_def tidy_rev tidy_dropWhile)

lemma sub_punct_id: "(\<forall>c\<in>set s. is_word c \<or> is_space c) \<Longrightarrow> sub_punct s = s"
  by (induction s) (auto simp: sub_punct_def)

lemma set_sub_punct: "c \<in> set (sub_punct s) \<Longrightarrow> is_word c \<or> is_space c"
  by (auto simp: sub_punct_def is_space_blank)

text \<open>
  C10: query normalisation is idempotent. Replacing punctuation by blanks, collapsing
  runs of whitespace and trimming, applied to an already normalised query, returns it
  unchanged.
\<close>

theorem preprocess_query_idempotent: "preprocess_query (preprocess_query q) = preprocess_query q"
proof -
  let ?t = "preprocess_query q"
  have "\<forall>c\<in>set ?t. is_word c \<or> is_space c"
  proof
    fix c assume "c \<in> set ?t"
    then have "c \<in> set (collapse_spaces (sub_punct q))" using set_strip by (auto simp: preprocess_query_def)
    then show "is_word c \<or> is_space c" using set_collapse_spaces set_sub_punct is_space_blank by blast
  qed
  then have 1: "sub_punct ?t = ?t" by (rule sub_punct_id)
  have "tidy ?t" by (simp add: preprocess_query_def tidy_strip tidy_collapse_spaces)
  then have 2: "collapse_spaces ?t = ?t" by (rule collapse_spaces_tidy)
  have 3: "strip ?t = ?t" by (simp add: preprocess_query_def strip_idem)
  show ?thesis using 1 2 3 by (simp add: preprocess_query_def)
qed

section \<open>Properties of the classifier\<close>

lemma first_match_iff: "first_match ps s = (\<exists>p\<in>set ps. re_search p s)"
  by (induction ps) auto

lemma how_to_patterns_anchored: "p \<in> set how_to_patterns \<Longrightarrow> anchored p"
  by (auto simp: how_to_patterns_def)

lemma space_not_letter: "is_space c \<Longrightarrow> c \<noteq> CHR ''h'' \<and> c \<noteq> CHR ''w''"
  by (auto simp: is_space_def)

lemma lower_char_space: "is_space c \<Longrightarrow> lower_char c = c"
  by (auto simp: is_space_def lower_char_def Let_def)

lemma literal_first:
  "l \<noteq> [] \<Longrightarrow> hd l \<noteq> c \<Longrightarrow> \<not> match_here (Lit l # rest) (c # s)"
  by (cases l) (auto simp: match_here_def strip_prefix_def)

lemma how_to_patterns_start:
  "p \<in> set how_to_patterns \<Longrightarrow>
     \<exists>l rest. atoms p = Lit l # rest \<and> l \<noteq> [] \<and> (hd l = CHR ''h'' \<or> hd l = CHR ''w'')"
  by (auto simp: how_to_patterns_def)

lemma how_to_needs_letter: "is_space c \<Longrightarrow> \<not> first_match how_to_patterns (c # s)"
proof -
  assume sp: "is_space c"
  have "\<not> re_search p (c # s)" if "p \<in> set how_to_patterns" for p
  proof -
    from how_to_patterns_start[OF that] obtain l rest where
      a: "atoms p = Lit l # rest" "l \<noteq> []" "hd l = CHR ''h'' \<or> hd l = CHR ''w''" by blast
    then have "hd l \<noteq> c" using space_not_letter[OF sp] by auto
    then have "\<not> match_here (atoms p) (c # s)" using a literal_first by simp
    then show ?thesis using how_to_patterns_anchored[OF that] by (simp add: re_search_def)
  qed
  then show ?thesis by (simp add: first_match_iff)
qed

text \<open>
  C3 (amended): \<open>is_how_to_question\<close> is true exactly when some pattern of the ordered
  list matches the lower-cased text at its very first character. The text is not trimmed:
  a text that begins with a whitespace character is never a how-to question.
\<close>

theorem is_how_to_question_untrimmed:
  "(is_how_to_question q \<longleftrightarrow> (\<exists>p\<in>set how_to_patterns. match_here (atoms p) (lower q)))
   \<and> (\<forall>c. is_space c \<longrightarrow> \<not> is_how_to_question (c # q))"
proof -
  have "is_how_to_question q \<longleftrightarrow> (\<exists>p\<in>set how_to_patterns. re_search p (lower q))"
    by (simp add: is_how_to_question_def first_match_iff)
  also have "\<dots> \<longleftrightarrow> (\<exists>p\<in>set how_to_patterns. match_here (atoms p) (lower q))"
    using how_to_patterns_anchored by (auto simp: re_search_def)
  finally have 1: "is_how_to_question q \<longleftrightarrow> (\<exists>p\<in>set how_to_patterns. match_here (atoms p) (lower q))" .
  have 2: "\<not> is_how_to_question (c # q)" if "is_space c" for c
    using that how_to_needs_letter[of c "lower q"]
    by (simp add: is_how_to_question_def lower_def lower_char_space)
  show ?thesis using 1 2 by blast
qed

text \<open>
  The amended statement at work: two blanks and capitals inside the phrasing are accepted,
  a leading blank is not.
\<close>

theorem is_how_to_question_untrimmed_witness:
  "is_space (CHR '' '') \<and> \<not> is_how_to_question '' how to set up a source''
   \<and> is_how_to_question ''How  TO set up a source''
   \<and> (\<exists>p\<in>set how_to_patterns. match_here (atoms p) (lower ''How  TO set up a source''))"
proof -
  have s: "is_space (CHR '' '')" by (simp add: is_space_def)
  have h: "is_how_to_question ''How  TO set up a source''" by code_simp
  from is_how_to_question_untrimmed[of "''How  TO set up a source''"] h
  have m: "\<exists>p\<in>set how_to_patterns. match_here (atoms p) (lower ''How  TO set up a source'')" by blast
  from is_how_to_question_untrimmed[of "''how to set up a source''"] s
  have n: "\<not> is_how_to_question (CHR '' '' # ''how to set up a source'')" by blast
  show ?thesis using s h m n by simp
qed

text \<open>
  C3 as stated fails: the trimmed form of this text starts with a how-to phrasing, yet
  the text itself is not classified as a how-to question.
\<close>

theorem is_how_to_trimmed_counterexample:
  "is_how_to_question (strip '' how to set up a source'')
   \<and> \<not> is_how_to_question '' how to set up a source''"
  by code_simp

lemma contains_sublist: "contains sub s = sublist sub s"
  by (induction s) (auto simp: sublist_Cons_right)

lemma distinct_cdp_names: "distinct cdp_names"
  by (simp add: cdp_names_def)

section \<open>Properties of index loading\<close>

lemma length_example_chunks: "length example_chunks = 4"
  by (simp add: example_chunks_def)

lemma str_nat_digits: "str_nat 4 = ''4''" "str_nat (Suc 0) = ''1''"
  by code_simp+

lemma load_index_fails_iff:
  "isl (load_index fs dir) \<longleftrightarrow>
       isl (pickle_load fs (path_join dir ''vectorizer.pkl''))
     \<or> isl (npz_load fs (path_join dir ''chunk_vectors.npz''))
     \<or> isl (json_load fs (path_join dir ''chunks_metadata.json''))
     \<or> (\<exists>v. json_load fs (path_join dir ''chunks_metadata.json'') = Inr v \<and> isl (py_len v))"
  by (auto simp: load_index_def split: sum.splits)

text \<open>
  C2 (amended): loading fails whenever one of the three artifacts cannot be opened or
  deserialised, and a load that returns gives the engine with all three loaded objects
  and the directory, never a part of them. The row count of the matrix is not compared
  with the number of chunks.
\<close>

theorem load_index_all_or_nothing:
  "((isl (pickle_load fs (path_join dir ''vectorizer.pkl''))
       \<or> isl (npz_load fs (path_join dir ''chunk_vectors.npz''))
       \<or> isl (json_load fs (path_join dir ''chunks_metadata.json'')))
      \<longrightarrow> isl (load_index fs dir))
   \<and> (\<forall>eng out. load_index fs dir = Inr (eng, out) \<longrightarrow>
           pickle_load fs (path_join dir ''vectorizer.pkl'') = Inr (vectorizer eng)
         \<and> npz_load fs (path_join dir ''chunk_vectors.npz'') = Inr (chunk_vectors eng)
         \<and> json_load fs (path_join dir ''chunks_metadata.json'') = Inr (chunks eng)
         \<and> index_dir eng = dir)"
  by (auto simp: load_index_def split: sum.splits)

text \<open>
  Loading the small index from its directory gives the engine with the three objects;
  from a directory without the files it fails.
\<close>

theorem load_index_all_or_nothing_witness:
  "isl (pickle_load example_files (path_join ''elsewhere'' ''vectorizer.pkl''))
   \<and> isl (load_index example_files ''elsewhere'')
   \<and> load_index example_files ''data/index''
       = Inr (example_loaded, ''Loaded index with 4 chunks'' @ [CHR 0x0A])
   \<and> pickle_load example_files (path_join ''data/index'' ''vectorizer.pkl'')
       = Inr (vectorizer example_loaded)
   \<and> npz_load example_files (path_join ''data/index'' ''chunk_vectors.npz'')
       = Inr (chunk_vectors example_loaded)
   \<and> json_load example_files (path_join ''data/index'' ''chunks_metadata.json'')
       = Inr (chunks example_loaded)
   \<and> index_dir example_loaded = ''data/index''
   \<and> serving example_loaded = Some example_engine"
proof -
  have a: "isl (pickle_load example_files (path_join ''elsewhere'' ''vectorizer.pkl''))"
    by (simp add: example_files_def path_join_def)
  have b: "isl (load_index example_files ''elsewhere'')"
    using a load_index_all_or_nothing[of example_files "''elsewhere''"] by blast
  have c: "load_index example_files ''data/index''
       = Inr (example_loaded, ''Loaded index with 4 chunks'' @ [CHR 0x0A])"
    by (simp add: load_index_def example_files_def example_loaded_def path_join_def
          loaded_message_def length_example_chunks str_nat_digits)
  have d: "serving example_loaded = Some example_engine"
    by (simp add: serving_def chunk_records_def example_loaded_def example_engine_def
          example_chunks_def)
  show ?thesis
    using a b c d load_index_all_or_nothing[of example_files "''data/index''"] by simp
qed

text \<open>
  C2 as stated fails: a matrix of two rows beside a single chunk loads without error.
\<close>

theorem load_index_misaligned_counterexample:
  "load_index misaligned_files ''data/index''
     = Inr (misaligned_engine, ''Loaded index with 1 chunks'' @ [CHR 0x0A])
   \<and> n_rows (chunk_vectors misaligned_engine) = 2
   \<and> py_len (chunks misaligned_engine) = Inr 1"
  by (simp add: load_index_def misaligned_files_def misaligned_engine_def path_join_def
        two_row_matrix_def loaded_message_def length_example_chunks str_nat_digits)

section \<open>Properties of search\<close>

lemma insort_ranked:
  assumes "sorted_wrt (\<lambda>a b. ranks_before b a) zs" and "\<forall>z\<in>set zs. fst z < fst y"
  shows "sorted_wrt (\<lambda>a b. ranks_before b a) (insort_key snd y zs)"
  using assms
proof (induction zs)
  case Nil
  show ?case by simp
next
  case (Cons z zs)
  show ?case
  proof (cases "snd y \<le> snd z")
    case True
    have "ranks_before w y" if "w \<in> set (z # zs)" for w
    proof -
      have "snd z \<le> snd w" using that Cons.prems(1) by (auto simp: ranks_before_def)
      moreover have "fst w < fst y" using that Cons.prems(2) by auto
      ultimately show ?thesis using True by (auto simp: ranks_before_def)
    qed
    then show ?thesis using True Cons.prems(1) by simp
  next
    case False
    have "sorted_wrt (\<lambda>a b. ranks_before b a) (insort_key snd y zs)"
      using Cons by simp
    moreover have "ranks_before w z" if "w \<in> set (insort_key snd y zs)" for w
      using that False Cons.prems(1) by (auto simp: set_insort_key ranks_before_def)
    ultimately show ?thesis using False by simp
  qed
qed

lemma sort_key_ranked:
  "sorted_wrt (>) (map fst ys) \<Longrightarrow> sorted_wrt (\<lambda>a b. ranks_before b a) (sort_key snd ys)"
proof (induction ys)
  case Nil
  show ?case by simp
next
  case (Cons y ys)
  have "\<forall>z\<in>set (sort_key snd ys). fst z < fst y" using Cons.prems by auto
  moreover have "sorted_wrt (\<lambda>a b. ranks_before b a) (sort_key snd ys)" using Cons by simp
  ultimately show ?case by (simp add: insort_ranked)
qed

lemma sorted_desc_ranked:
  assumes "sorted_wrt (<) (map fst xs)"
  shows "sorted_wrt ranks_before (sorted_desc xs)"
proof -
  have "sorted_wrt (>) (map fst (rev xs))" using assms by (simp add: rev_map[symmetric] sorted_wrt_rev)
  then show ?thesis unfolding sorted_desc_def sorted_wrt_rev by (rule sort_key_ranked)
qed

lemma set_sorted_desc: "set (sorted_desc xs) = set xs"
  by (simp add: sorted_desc_def)

lemma length_py_take: "0 \<le> k \<Longrightarrow> length (py_take k xs) \<le> nat k"
  by (simp add: py_take_def)

lemma cdp_indices_range:
  "cdp_indices f i cs = Inr js \<Longrightarrow> sorted_wrt (<) js \<and> (\<forall>j\<in>set js. i \<le> j \<and> j < i + length cs)"
proof (induction cs arbitrary: i js)
  case Nil
  then show ?case by simp
next
  case (Cons c cs)
  from Cons.prems obtain s ks where s: "source_lower c = Inr s"
    and ks: "cdp_indices f (Suc i) cs = Inr ks"
    and js: "js = (if s = lower f then i # ks else ks)"
    by (auto split: sum.splits)
  from Cons.IH[OF ks] have "sorted_wrt (<) ks" and "\<forall>j\<in>set ks. Suc i \<le> j \<and> j < Suc i + length cs" by auto
  then show ?case using js by (auto simp: Suc_le_eq)
qed

lemma cdp_indices_set:
  "cdp_indices f i cs = Inr js \<Longrightarrow>
     set js = {j. i \<le> j \<and> j < i + length cs \<and> source_lower (cs ! (j - i)) = Inr (lower f)}"
proof (induction cs arbitrary: i js)
  case Nil
  then show ?case by simp
next
  case (Cons c cs)
  from Cons.prems obtain s ks where s: "source_lower c = Inr s"
    and ks: "cdp_indices f (Suc i) cs = Inr ks"
    and js: "js = (if s = lower f then i # ks else ks)"
    by (auto split: sum.splits)
  have IH: "set ks = {j. Suc i \<le> j \<and> j < Suc i + length cs \<and> source_lower (cs ! (j - Suc i)) = Inr (lower f)}"
    using Cons.IH[OF ks] .
  have nth: "(c # cs) ! (j - i) = (if j = i then c else cs ! (j - Suc i))" if "i \<le> j" for j
    using that by (auto simp: nth_Cons')
  show ?case
  proof (intro set_eqI iffI)
    fix j assume "j \<in> set js"
    then consider "j = i" "s = lower f" | "j \<in> set ks" using js by (auto split: if_splits)
    then show "j \<in> {j. i \<le> j \<and> j < i + length (c # cs) \<and> source_lower ((c # cs) ! (j - i)) = Inr (lower f)}"
    proof cases
      case 1 then show ?thesis using s by simp
    next
      case 2 then show ?thesis using IH nth[of j] by auto
    qed
  next
    fix j assume "j \<in> {j. i \<le> j \<and> j < i + length (c # cs) \<and> source_lower ((c # cs) ! (j - i)) = Inr (lower f)}"
    then have a: "i \<le> j" "j < i + length (c # cs)" "source_lower ((c # cs) ! (j - i)) = Inr (lower f)" by auto
    show "j \<in> set js"
    proof (cases "j = i")
      case True then show ?thesis using a s js by simp
    next
      case False
      then have "j \<in> set ks" using a IH nth[of j] by auto
      then show ?thesis using js by simp
    qed
  qed
qed

lemma cdp_similarities_shape:
  "cdp_similarities sims js = Inr ps \<Longrightarrow> ps = map (\<lambda>i. (i, sims ! i)) js \<and> (\<forall>j\<in>set js. j < length sims)"
  by (induction js arbitrary: ps) (auto split: if_splits sum.splits)

lemma collect_results_shape:
  "collect_results cs ps = Inr rs \<Longrightarrow>
     rs = map (\<lambda>(i, s). with_score (cs ! i) s) (filter (\<lambda>(i, s). s > relevance_floor) ps)"
  by (induction cs ps arbitrary: rs rule: collect_results.induct) (auto split: if_splits sum.splits)

lemma search_InrD:
  assumes "search eng q k f = Inr rs"
  shows "\<exists>sims ranked. similarities eng (preprocess_query q) = Inr sims
           \<and> top_indices sims (chunks eng) k f = Inr ranked
           \<and> collect_results (chunks eng) ranked = Inr rs"
  using assms by (auto simp: search_def split: sum.splits)

lemma top_indices_shape:
  assumes "top_indices sims cs k f = Inr ranked"
  shows "\<exists>full. ranked = py_take k full \<and> sorted_wrt ranks_before full
           \<and> (\<forall>i s. (i, s) \<in> set full \<longleftrightarrow> i < length sims \<and> s = sims ! i
                 \<and> (truthy f \<longrightarrow> i < length cs \<and> source_lower (cs ! i) = Inr (lower (the f))))"
proof (cases "truthy f")
  case True
  from assms True obtain js ps where js: "cdp_indices (the f) 0 cs = Inr js"
    and ps: "cdp_similarities sims js = Inr ps"
    and ranked: "ranked = py_take k (sorted_desc ps)"
    by (auto simp: top_indices_def split: sum.splits)
  from cdp_similarities_shape[OF ps]
  have ps_eq: "ps = map (\<lambda>i. (i, sims ! i)) js" and bound: "\<forall>j\<in>set js. j < length sims" by auto
  have "map fst ps = js" by (simp add: ps_eq comp_def)
  moreover have "sorted_wrt (<) js" using cdp_indices_range[OF js] by simp
  ultimately have sorted: "sorted_wrt ranks_before (sorted_desc ps)" by (simp add: sorted_desc_ranked)
  have setjs: "set js = {j. j < length cs \<and> source_lower (cs ! j) = Inr (lower (the f))}"
    using cdp_indices_set[OF js] by simp
  have "(i, s) \<in> set (sorted_desc ps) \<longleftrightarrow> i < length sims \<and> s = sims ! i
                 \<and> (truthy f \<longrightarrow> i < length cs \<and> source_lower (cs ! i) = Inr (lower (the f)))" for i s
  proof -
    have "(i, s) \<in> set (sorted_desc ps) \<longleftrightarrow> i \<in> set js \<and> s = sims ! i"
      by (auto simp: set_sorted_desc ps_eq)
    then show ?thesis using True bound setjs by auto
  qed
  then show ?thesis using ranked sorted by blast
next
  case False
  let ?ps = "zip [0..<length sims] sims"
  from assms False have ranked: "ranked = py_take k (sorted_desc ?ps)"
    by (simp add: top_indices_def)
  have "map fst ?ps = [0..<length sims]" by simp
  then have sorted: "sorted_wrt ranks_before (sorted_desc ?ps)"
    by (simp add: sorted_desc_ranked strict_sorted_iff[symmetric])
  have "(i, s) \<in> set (sorted_desc ?ps) \<longleftrightarrow> i < length sims \<and> s = sims ! i" for i s
  proof
    assume "(i, s) \<in> set (sorted_desc ?ps)"
    then show "i < length sims \<and> s = sims ! i"
      unfolding set_sorted_desc by (auto simp: in_set_zip)
  next
    assume a: "i < length sims \<and> s = sims ! i"
    then have "?ps ! i = (i, s)" by simp
    moreover have "i < length ?ps" using a by simp
    ultimately show "(i, s) \<in> set (sorted_desc ?ps)"
      unfolding set_sorted_desc by (metis nth_mem)
  qed
  then have "(i, s) \<in> set (sorted_desc ?ps) \<longleftrightarrow> i < length sims \<and> s = sims ! i
                 \<and> (truthy f \<longrightarrow> i < length cs \<and> source_lower (cs ! i) = Inr (lower (the f)))" for i s
    using False by simp
  then show ?thesis using ranked sorted by blast
qed

text \<open>
  C4: the results of a search are the chunks of a list of (position, score) pairs that
  holds every candidate (every chunk, or with a product filter every chunk of that
  source), ordered by descending score with equal scores in corpus order; the list is cut
  to \<open>top_k\<close> and the pairs at or under the floor are left out.
\<close>

theorem search_sorted_stable:
  assumes "search eng q top_k cdp_filter = Inr rs"
  shows "\<exists>sims full.
           similarities eng (preprocess_query q) = Inr sims
         \<and> (\<forall>i s. (i, s) \<in> set full \<longleftrightarrow> i < length sims \<and> s = sims ! i
               \<and> (truthy cdp_filter \<longrightarrow> i < length (chunks eng)
                     \<and> source_lower (chunks eng ! i) = Inr (lower (the cdp_filter))))
         \<and> sorted_wrt ranks_before full
         \<and> rs = map (\<lambda>(i, s). with_score (chunks eng ! i) s)
                  (filter (\<lambda>(i, s). s > relevance_floor) (py_take top_k full))"
proof -
  from search_InrD[OF assms] obtain sims ranked where
    sims: "similarities eng (preprocess_query q) = Inr sims"
    and top: "top_indices sims (chunks eng) top_k cdp_filter = Inr ranked"
    and coll: "collect_results (chunks eng) ranked = Inr rs" by blast
  from top_indices_shape[OF top] obtain full where
    "ranked = py_take top_k full" "sorted_wrt ranks_before full"
    "(\<forall>i s. (i, s) \<in> set full \<longleftrightarrow> i < length sims \<and> s = sims ! i
               \<and> (truthy cdp_filter \<longrightarrow> i < length (chunks eng)
                     \<and> source_lower (chunks eng ! i) = Inr (lower (the cdp_filter))))" by blast
  with sims collect_results_shape[OF coll] show ?thesis by blast
qed

text \<open>
  With the filter \<open>SEGMENT\<close> the two chunks of that source tie at 0.5 and come in
  corpus order.
\<close>

theorem search_sorted_stable_witness:
  "search example_engine ''how to add a source'' 5 (Some ''SEGMENT'')
     = Inr [with_score (example_chunks ! 0) (1/2), with_score (example_chunks ! 2) (1/2)]
   \<and> (\<exists>sims full.
           similarities example_engine (preprocess_query ''how to add a source'') = Inr sims
         \<and> (\<forall>i s. (i, s) \<in> set full \<longleftrightarrow> i < length sims \<and> s = sims ! i
               \<and> (truthy (Some ''SEGMENT'') \<longrightarrow> i < length (chunks example_engine)
                     \<and> source_lower (chunks example_engine ! i) = Inr (lower (the (Some ''SEGMENT'')))))
         \<and> sorted_wrt ranks_before full
         \<and> [with_score (example_chunks ! 0) (1/2), with_score (example_chunks ! 2) (1/2)]
             = map (\<lambda>(i, s). with_score (chunks example_engine ! i) s)
                  (filter (\<lambda>(i, s). s > relevance_floor) (py_take 5 full)))"
proof -
  have h: "search example_engine ''how to add a source'' 5 (Some ''SEGMENT'')
     = Inr [with_score (example_chunks ! 0) (1/2), with_score (example_chunks ! 2) (1/2)]"
    by code_simp
  show ?thesis using h search_sorted_stable[OF h] by (rule conjI)
qed

lemma map_of_with_score: "map_of (with_score c s) ''score'' = Some (PFloat s)"
  by (simp add: with_score_def update_conv')

text \<open>
  C1: for \<open>top_k \<ge> 0\<close> a search returns at most \<open>top_k\<close> results, and the score
  stored in every result is strictly above the relevance floor, the double written 0.1,
  hence above one tenth.
\<close>

theorem search_at_most_top_k_above_floor:
  assumes "search eng q top_k cdp_filter = Inr rs" and "0 \<le> top_k"
  shows "length rs \<le> nat top_k
       \<and> (\<forall>r\<in>set rs. \<exists>s. map_of r ''score'' = Some (PFloat s)
               \<and> s > relevance_floor \<and> s > 1 / 10)"
proof -
  from search_InrD[OF assms(1)] obtain sims ranked where
    top: "top_indices sims (chunks eng) top_k cdp_filter = Inr ranked"
    and coll: "collect_results (chunks eng) ranked = Inr rs" by blast
  from top_indices_shape[OF top] obtain full where ranked: "ranked = py_take top_k full" by blast
  have rs: "rs = map (\<lambda>(i, s). with_score (chunks eng ! i) s)
                  (filter (\<lambda>(i, s). s > relevance_floor) ranked)"
    using collect_results_shape[OF coll] .
  have "length rs \<le> length ranked" by (simp add: rs)
  also have "\<dots> \<le> nat top_k" using assms(2) by (simp add: ranked length_py_take)
  finally have len: "length rs \<le> nat top_k" .
  have "\<exists>s. map_of r ''score'' = Some (PFloat s) \<and> s > relevance_floor \<and> s > 1 / 10"
    if "r \<in> set rs" for r
  proof -
    from that rs obtain i s where r: "r = with_score (chunks eng ! i) s" and s: "s > relevance_floor"
      by auto
    have "(1::real) / 10 < relevance_floor" by (simp add: relevance_floor_def)
    then have "s > 1 / 10" using s by simp
    then show ?thesis using r s map_of_with_score by blast
  qed
  with len show ?thesis by blast
qed

text \<open>
  Three chunks score above the floor; with \<open>top_k = 2\<close> the two best are returned.
\<close>

theorem search_at_most_top_k_above_floor_witness:
  "search example_engine ''how to add a source'' 2 None
     = Inr [with_score (example_chunks ! 1) (9/10), with_score (example_chunks ! 0) (1/2)]
   \<and> (0::int) \<le> 2
   \<and> length [with_score (example_chunks ! 1) (9/10), with_score (example_chunks ! 0) (1/2)] \<le> nat 2
   \<and> (\<exists>s. map_of (with_score (example_chunks ! 1) (9/10)) ''score'' = Some (PFloat s)
           \<and> s > relevance_floor \<and> s > 1 / 10)
   \<and> (\<exists>s. map_of (with_score (example_chunks ! 0) (1/2)) ''score'' = Some (PFloat s)
           \<and> s > relevance_floor \<and> s > 1 / 10)"
proof -
  have h: "search example_engine ''how to add a source'' 2 None
     = Inr [with_score (example_chunks ! 1) (9/10), with_score (example_chunks ! 0) (1/2)]"
    by code_simp
  have k: "(0::int) \<le> 2" by simp
  show ?thesis using h k search_at_most_top_k_above_floor[OF h k] by simp
qed

lemma cdp_indices_total:
  "\<forall>c\<in>set cs. has_source c \<Longrightarrow> \<exists>js. cdp_indices f i cs = Inr js"
proof (induction cs arbitrary: i)
  case Nil
  show ?case by simp
next
  case (Cons c cs)
  then have "has_source c" by simp
  then obtain s where "source_lower c = Inr s"
    by (auto simp: has_source_def source_lower_def split: option.splits pyval.splits)
  moreover obtain js where "cdp_indices f (Suc i) cs = Inr js" using Cons by fastforce
  ultimately show ?case by simp
qed

lemma cdp_similarities_total:
  "\<forall>j\<in>set js. j < length sims \<Longrightarrow> \<exists>ps. cdp_similarities sims js = Inr ps"
  by (induction js) auto

lemma collect_results_total:
  "\<forall>(i, s)\<in>set ps. i < length cs \<Longrightarrow> \<exists>rs. collect_results cs ps = Inr rs"
  by (induction cs ps rule: collect_results.induct) auto

lemma set_py_take: "set (py_take k xs) \<subseteq> set xs"
  by (auto simp: py_take_def dest: in_set_takeD)

text \<open>
  C8 (amended): on an index whose numeric calls give one score per row and whose rows are
  aligned with the chunk list, a search returns a sequence for every query, \<open>top_k\<close>
  and filter, provided that with a filter every chunk has a string source; a filter that
  matches no chunk gives the empty sequence.
\<close>

theorem search_never_raises:
  assumes "scores_per_row eng" and "rows_aligned eng"
    and "truthy cdp_filter \<longrightarrow> (\<forall>c\<in>set (chunks eng). has_source c)"
  shows "(\<exists>rs. search eng q top_k cdp_filter = Inr rs)
       \<and> (truthy cdp_filter
            \<and> (\<forall>c\<in>set (chunks eng). source_lower c \<noteq> Inr (lower (the cdp_filter)))
          \<longrightarrow> search eng q top_k cdp_filter = Inr [])"
proof -
  from assms(1) obtain sims where sims: "similarities eng (preprocess_query q) = Inr sims"
    and "length sims = n_rows (chunk_vectors eng)" unfolding scores_per_row_def by blast
  with assms(2) have len: "length sims = length (chunks eng)" by (simp add: rows_aligned_def)
  have "\<exists>ranked. top_indices sims (chunks eng) top_k cdp_filter = Inr ranked"
  proof (cases "truthy cdp_filter")
    case True
    then have "\<forall>c\<in>set (chunks eng). has_source c" using assms(3) by blast
    then obtain js where js: "cdp_indices (the cdp_filter) 0 (chunks eng) = Inr js"
      using cdp_indices_total by blast
    have "\<forall>j\<in>set js. j < length sims" using cdp_indices_range[OF js] len by simp
    then obtain ps where "cdp_similarities sims js = Inr ps" using cdp_similarities_total by blast
    with js True show ?thesis by (simp add: top_indices_def)
  next
    case False
    then show ?thesis by (simp add: top_indices_def)
  qed
  then obtain ranked where top: "top_indices sims (chunks eng) top_k cdp_filter = Inr ranked" by blast
  from top_indices_shape[OF top] obtain full where ranked: "ranked = py_take top_k full"
    and full: "(\<forall>i s. (i, s) \<in> set full \<longleftrightarrow> i < length sims \<and> s = sims ! i
               \<and> (truthy cdp_filter \<longrightarrow> i < length (chunks eng)
                     \<and> source_lower (chunks eng ! i) = Inr (lower (the cdp_filter))))" by blast
  have sub: "set ranked \<subseteq> set full" unfolding ranked by (rule set_py_take)
  have "i < length (chunks eng)" if "(i, s) \<in> set ranked" for i s
  proof -
    have "(i, s) \<in> set full" using that sub by blast
    then show ?thesis using full len by simp
  qed
  then have "\<forall>(i, s)\<in>set ranked. i < length (chunks eng)" by blast
  then obtain rs where coll: "collect_results (chunks eng) ranked = Inr rs"
    using collect_results_total by blast
  have 1: "search eng q top_k cdp_filter = Inr rs" using sims top coll by (simp add: search_def)
  have 2: "rs = []" if "truthy cdp_filter"
    and "\<forall>c\<in>set (chunks eng). source_lower c \<noteq> Inr (lower (the cdp_filter))"
  proof -
    have "(i, s) \<notin> set full" for i s
    proof
      assume a: "(i, s) \<in> set full"
      then have "i < length (chunks eng)" "source_lower (chunks eng ! i) = Inr (lower (the cdp_filter))"
        using full that(1) by simp_all
      then show False using that(2) by (metis nth_mem)
    qed
    then have "set full = {}" by (cases full) auto
    then have "ranked = []" using sub by simp
    then show ?thesis using coll by simp
  qed
  show ?thesis using 1 2 by blast
qed

text \<open>
  The small index is consistent; no chunk of it has the source \<open>zeotap\<close>.
\<close>

theorem search_never_raises_witness:
  "scores_per_row example_engine \<and> rows_aligned example_engine
   \<and> list_all has_source (chunks example_engine)
   \<and> (\<exists>rs. search example_engine ''how to add a source'' 3 (Some ''segment'') = Inr rs)
   \<and> search example_engine ''how to add a source'' 3 (Some ''zeotap'') = Inr []"
proof -
  have a: "scores_per_row example_engine"
    by (simp add: scores_per_row_def similarities_def example_engine_def unit_vectorizer_def
          four_row_matrix_def)
  have b: "rows_aligned example_engine"
    by (simp add: rows_aligned_def example_engine_def four_row_matrix_def example_chunks_def)
  have c: "\<forall>c\<in>set (chunks example_engine). has_source c"
    by (simp add: example_engine_def example_chunks_def has_source_def)
  have t: "truthy (Some ''zeotap'')" by (simp add: truthy_def)
  have n: "\<forall>c\<in>set (chunks example_engine). source_lower c \<noteq> Inr (lower (the (Some ''zeotap'')))"
    by code_simp
  have 1: "\<exists>rs. search example_engine ''how to add a source'' 3 (Some ''segment'') = Inr rs"
    using search_never_raises[OF a b, of "Some ''segment''"] c by blast
  have 2: "search example_engine ''how to add a source'' 3 (Some ''zeotap'') = Inr []"
    using search_never_raises[OF a b, of "Some ''zeotap''" "''how to add a source''" 3] c t n
    by blast
  show ?thesis using a b c 1 2 by (simp add: list_all_iff)
qed

text \<open>
  C8 as stated fails: on an index whose rows are aligned with the chunk list, a filtered
  search raises when a chunk has no source, and any search raises when the matrix product
  does.
\<close>

theorem search_aligned_raises_counterexample:
  "rows_aligned no_source_engine
   \<and> search no_source_engine ''how to add a source'' 3 (Some ''segment'') = Inl KeyError
   \<and> rows_aligned raising_engine
   \<and> search raising_engine ''how to add a source'' 3 None = Inl ValueError"
proof -
  have a: "rows_aligned no_source_engine"
    by (simp add: rows_aligned_def no_source_engine_def one_row_matrix_def)
  have b: "search no_source_engine ''how to add a source'' 3 (Some ''segment'') = Inl KeyError"
    by (simp add: search_def similarities_def no_source_engine_def unit_vectorizer_def
          one_row_matrix_def top_indices_def truthy_def source_lower_def)
  have c: "rows_aligned raising_engine"
    by (simp add: rows_aligned_def raising_engine_def raising_matrix_def example_chunks_def)
  have d: "search raising_engine ''how to add a source'' 3 None = Inl ValueError"
    by (simp add: search_def similarities_def raising_engine_def unit_vectorizer_def
          raising_matrix_def)
  show ?thesis using a b c d by simp
qed

section \<open>Search leaves the stored chunks alone\<close>

lemma collect_results_st_frame:
  assumes "collect_results_st h refs ps = (r, h')" and "\<forall>a\<in>set refs. a < length h"
  shows "length h \<le> length h' \<and> take (length h) h' = h
       \<and> (case r of
             Inl e \<Rightarrow> collect_results (map (nth h) refs) ps = Inl e
           | Inr rs \<Rightarrow> collect_results (map (nth h) refs) ps = Inr (map (nth h') rs)
                       \<and> (\<forall>a\<in>set rs. length h \<le> a \<and> a < length h') \<and> distinct rs)"
  using assms
proof (induction h refs ps arbitrary: r h' rule: collect_results_st.induct)
  case (1 h refs)
  then show ?case by auto
next
  case (2 h refs idx score ps)
  show ?case
  proof (cases "score > relevance_floor")
    case False
    then show ?thesis using 2 by (auto split: sum.splits)
  next
    case above: True
    show ?thesis
    proof (cases "idx < length refs")
      case False
      then show ?thesis using above 2 by auto
    next
      case True
      let ?a = "length h"
      let ?h2 = "h @ [with_score (h ! (refs ! idx)) score]"
      have ref: "refs ! idx < length h" using True "2.prems"(2) by simp
      have cp: "dict_copy h (refs ! idx) = (?a, h @ [h ! (refs ! idx)])" by (simp add: dict_copy_def)
      have si: "dict_setitem (h @ [h ! (refs ! idx)]) ?a ''score'' (PFloat score) = ?h2"
        by (simp add: dict_setitem_def with_score_def)
      obtain r2 h3 where rec: "collect_results_st ?h2 refs ps = (r2, h3)" by fastforce
      have valid2: "\<forall>a\<in>set refs. a < length ?h2" using "2.prems"(2) by auto
      have IH: "length ?h2 \<le> length h3 \<and> take (length ?h2) h3 = ?h2
       \<and> (case r2 of
             Inl e \<Rightarrow> collect_results (map (nth ?h2) refs) ps = Inl e
           | Inr rs \<Rightarrow> collect_results (map (nth ?h2) refs) ps = Inr (map (nth h3) rs)
                       \<and> (\<forall>a\<in>set rs. length ?h2 \<le> a \<and> a < length h3) \<and> distinct rs)"
        using "2.IH"(1)[OF above True cp[symmetric] refl si[symmetric] rec valid2] .
      have same: "map (nth ?h2) refs = map (nth h) refs"
        using "2.prems"(2) by (simp add: nth_append)
      have res: "(r, h') = (case r2 of Inl e \<Rightarrow> (Inl e, h3) | Inr rs \<Rightarrow> (Inr (?a # rs), h3))"
        using "2.prems"(1) above True rec by (simp add: cp si split: sum.splits)
      then have h': "h' = h3" by (cases r2) auto
      have len: "length h \<le> length h3" using IH by simp
      have "take (length h) (take (length ?h2) h3) = take (length h) ?h2" using IH by simp
      then have tk: "take (length h) h3 = h" by (simp add: min_def)
      have at: "h3 ! ?a = with_score (h ! (refs ! idx)) score"
      proof -
        have "h3 ! ?a = take (length ?h2) h3 ! ?a" by simp
        also have "\<dots> = ?h2 ! ?a" using IH by simp
        finally show ?thesis by simp
      qed
      show ?thesis
      proof (cases r2)
        case (Inl e)
        then have "r = Inl e" using res by simp
        then show ?thesis using Inl IH same above True h' len tk by simp
      next
        case (Inr rs)
        then have r: "r = Inr (?a # rs)" using res by simp
        have c: "collect_results (map (nth h) refs) ps = Inr (map (nth h3) rs)"
          and fresh: "\<forall>a\<in>set rs. length ?h2 \<le> a \<and> a < length h3" and d: "distinct rs"
          using IH Inr same by simp_all
        have "?a \<notin> set rs" using fresh by auto
        moreover have "?a < length h3" using IH by simp
        moreover have "\<forall>a\<in>set rs. length h \<le> a \<and> a < length h3" using fresh by auto
        ultimately show ?thesis using r c d above True h' len tk at by simp
      qed
    qed
  qed
qed

lemma collect_results_members:
  "collect_results cs ps = Inr rs \<Longrightarrow>
     \<forall>r\<in>set rs. \<exists>i s. i < length cs \<and> r = with_score (cs ! i) s"
proof (induction cs ps arbitrary: rs rule: collect_results.induct)
  case (1 cs)
  then show ?case by simp
next
  case (2 cs idx score ps)
  show ?case
  proof (cases "score > relevance_floor")
    case False
    then show ?thesis using 2 by simp
  next
    case True
    with "2.prems" obtain rs' where idx: "idx < length cs"
      and rec: "collect_results cs ps = Inr rs'"
      and rs: "rs = with_score (cs ! idx) score # rs'"
      by (auto split: if_splits sum.splits)
    have "\<forall>r\<in>set rs'. \<exists>i s. i < length cs \<and> r = with_score (cs ! i) s"
      using "2.IH"(1)[OF True idx rec] .
    then show ?thesis using rs idx by auto
  qed
qed

lemma similarities_deref: "similarities (deref h eng) t = similarities eng t"
  by (simp add: similarities_def deref_def split: sum.splits)

lemma search_deref:
  "search (deref h eng) q k f =
     (case similarities eng (preprocess_query q) of
        Inl e \<Rightarrow> Inl e
      | Inr sims \<Rightarrow>
          (case top_indices sims (map (nth h) (chunks eng)) k f of
             Inl e \<Rightarrow> Inl e
           | Inr ranked \<Rightarrow> collect_results (map (nth h) (chunks eng)) ranked))"
proof -
  have c: "chunks (deref h eng) = map (nth h) (chunks eng)" by (simp add: deref_def)
  show ?thesis unfolding search_def similarities_deref c by (rule refl)
qed

text \<open>
  C9: a search on a store changes no object that was there before the call, raising or
  not, so every stored chunk keeps its fields. The results are fresh, distinct objects,
  each the stored chunk of some corpus position with the score item set, and they hold
  what the search on values returns.
\<close>

theorem search_st_frame:
  assumes "\<forall>a\<in>set (chunks eng). a < length h"
    and "search_st eng h q top_k cdp_filter = (r, h')"
  shows "take (length h) h' = h
       \<and> (\<forall>a\<in>set (chunks eng). h' ! a = h ! a)
       \<and> (case r of
             Inl e \<Rightarrow> search (deref h eng) q top_k cdp_filter = Inl e
           | Inr rs \<Rightarrow>
               search (deref h eng) q top_k cdp_filter = Inr (map (nth h') rs)
             \<and> distinct rs
             \<and> (\<forall>a\<in>set rs. length h \<le> a \<and> a < length h'
                   \<and> (\<exists>i s. i < length (chunks eng)
                          \<and> h' ! a = with_score (h ! (chunks eng ! i)) s)))"
proof (cases "similarities eng (preprocess_query q)")
  case (Inl e)
  then show ?thesis using assms(2) by (auto simp: search_st_def search_deref)
next
  case sims: (Inr sims)
  show ?thesis
  proof (cases "top_indices sims (map (nth h) (chunks eng)) top_k cdp_filter")
    case (Inl e)
    then show ?thesis using assms(2) sims by (auto simp: search_st_def search_deref)
  next
    case (Inr ranked)
    then have run: "collect_results_st h (chunks eng) ranked = (r, h')"
      using assms(2) sims by (simp add: search_st_def)
    have pure: "search (deref h eng) q top_k cdp_filter
                  = collect_results (map (nth h) (chunks eng)) ranked"
      using sims Inr by (simp add: search_deref)
    from collect_results_st_frame[OF run assms(1)]
    have len: "length h \<le> length h'" and tk: "take (length h) h' = h"
      and res: "case r of
             Inl e \<Rightarrow> collect_results (map (nth h) (chunks eng)) ranked = Inl e
           | Inr rs \<Rightarrow> collect_results (map (nth h) (chunks eng)) ranked = Inr (map (nth h') rs)
                       \<and> (\<forall>a\<in>set rs. length h \<le> a \<and> a < length h') \<and> distinct rs"
      by simp_all
    have old: "h' ! a = h ! a" if "a < length h" for a
    proof -
      have "h' ! a = take (length h) h' ! a" using that by simp
      then show ?thesis using tk by simp
    qed
    then have stored: "\<forall>a\<in>set (chunks eng). h' ! a = h ! a" using assms(1) by simp
    show ?thesis
    proof (cases r)
      case (Inl e)
      then show ?thesis using res pure tk stored by simp
    next
      case (Inr rs)
      then have c: "collect_results (map (nth h) (chunks eng)) ranked = Inr (map (nth h') rs)"
        and fresh: "\<forall>a\<in>set rs. length h \<le> a \<and> a < length h'" and d: "distinct rs"
        using res by simp_all
      have "\<exists>i s. i < length (chunks eng) \<and> h' ! a = with_score (h ! (chunks eng ! i)) s"
        if "a \<in> set rs" for a
      proof -
        have "h' ! a \<in> set (map (nth h') rs)" using that by simp
        then obtain i s where "i < length (map (nth h) (chunks eng))"
          "h' ! a = with_score (map (nth h) (chunks eng) ! i) s"
          using collect_results_members[OF c] by blast
        then show ?thesis by auto
      qed
      then show ?thesis using Inr c fresh d pure tk stored by simp
    qed
  qed
qed

text \<open>
  One result: a new object at address 4, while the addresses 0 to 3 hold what they held.
\<close>

theorem search_st_frame_witness:
  "list_all (\<lambda>a. a < length example_chunks) (chunks example_refs)
   \<and> search_st example_refs example_chunks ''how to add a source'' 1 (Some ''segment'')
       = (Inr [4], example_chunks @ [with_score (example_chunks ! 0) (1/2)])
   \<and> take (length example_chunks) (example_chunks @ [with_score (example_chunks ! 0) (1/2)])
       = example_chunks
   \<and> list_all (\<lambda>a. (example_chunks @ [with_score (example_chunks ! 0) (1/2)]) ! a
                        = example_chunks ! a) (chunks example_refs)
   \<and> search (deref example_chunks example_refs) ''how to add a source'' 1 (Some ''segment'')
       = Inr (map (nth (example_chunks @ [with_score (example_chunks ! 0) (1/2)])) [4])"
proof -
  have a: "\<forall>a\<in>set (chunks example_refs). a < length example_chunks"
    by (simp add: example_refs_def example_chunks_def)
  have h: "search_st example_refs example_chunks ''how to add a source'' 1 (Some ''segment'')
       = (Inr [4], example_chunks @ [with_score (example_chunks ! 0) (1/2)])"
    by code_simp
  show ?thesis using a h search_st_frame[OF a h] by (simp add: list_all_iff)
qed

section \<open>Properties of query answering\<close>

text \<open>
  C5: a text that is not a how-to question is answered by \<open>NotHowTo\<close> with the fixed
  help message, whatever else the text contains.
\<close>

theorem query_not_how_to:
  "\<not> is_how_to_question q \<Longrightarrow> query eng q = Inr (NotHowTo not_how_to_message)"
  by (simp add: query_def)

text \<open>
  The text of this instance is a comparison question as well.
\<close>

theorem query_not_how_to_witness:
  "\<not> is_how_to_question ''Compare audience creation in Segment vs Lytics''
   \<and> is_comparison_question ''Compare audience creation in Segment vs Lytics''
   \<and> query example_engine ''Compare audience creation in Segment vs Lytics''
       = Inr (NotHowTo not_how_to_message)"
proof -
  have h: "\<not> is_how_to_question ''Compare audience creation in Segment vs Lytics''" by code_simp
  have c: "is_comparison_question ''Compare audience creation in Segment vs Lytics''" by code_simp
  show ?thesis using h c query_not_how_to[OF h, of example_engine] by simp
qed

section \<open>Properties of comparison\<close>

text \<open>
  C7: a comparison text in which fewer than two of the four product names occur, in any
  letter case, yields no product list and the error asking for at least two products.
\<close>

theorem too_few_products:
  assumes "is_comparison_question q"
    and "card {p \<in> set cdp_names. sublist p (lower q)} < 2"
  shows "extract_cdps_to_compare q = None
       \<and> compare_cdps eng q = Inr (Some (ComparisonError need_cdps_message))"
proof -
  have "length (filter (\<lambda>cdp. contains cdp (lower q)) cdp_names)
          = card ({p. sublist p (lower q)} \<inter> set cdp_names)"
    using distinct_cdp_names by (simp add: distinct_length_filter contains_sublist)
  also have "{p. sublist p (lower q)} \<inter> set cdp_names = {p \<in> set cdp_names. sublist p (lower q)}"
    by auto
  finally have "length (filter (\<lambda>cdp. contains cdp (lower q)) cdp_names) < 2"
    using assms(2) by simp
  then have 1: "extract_cdps_to_compare q = None"
    by (simp add: extract_cdps_to_compare_def Let_def)
  then show ?thesis using assms(1) by (simp add: compare_cdps_def)
qed

text \<open>
  The text \<open>vs\<close> alone.
\<close>

theorem too_few_products_witness:
  "is_comparison_question ''vs''
   \<and> card {p \<in> set cdp_names. sublist p (lower ''vs'')} < 2
   \<and> extract_cdps_to_compare ''vs'' = None
   \<and> compare_cdps example_engine ''vs'' = Inr (Some (ComparisonError need_cdps_message))"
proof -
  have c: "is_comparison_question ''vs''" by code_simp
  have "filter (\<lambda>p. contains p (lower ''vs'')) cdp_names = []" by code_simp
  then have "set (filter (\<lambda>p. sublist p (lower ''vs'')) cdp_names) = {}"
    by (simp add: contains_sublist)
  then have e: "{p \<in> set cdp_names. sublist p (lower ''vs'')} = {}" by simp
  have k: "card {p \<in> set cdp_names. sublist p (lower ''vs'')} < 2" unfolding e by simp
  show ?thesis using c k too_few_products[OF c k, of example_engine] by simp
qed

lemma update_fresh: "k \<notin> fst ` set al \<Longrightarrow> AList.update k v al = al @ [(k, v)]"
  by (induction al) auto

lemma comparison_results_shape:
  assumes "\<forall>cdp\<in>set cdps. \<exists>rs. search eng (search_query feature cdp) 2 (Some cdp) = Inr rs"
    and "distinct cdps" and "fst ` set acc \<inter> set cdps = {}"
  shows "\<exists>new. comparison_results eng feature cdps acc = Inr (acc @ new)
           \<and> map fst new = filter (\<lambda>cdp. search eng (search_query feature cdp) 2 (Some cdp) \<noteq> Inr []) cdps
           \<and> (\<forall>(cdp, rs)\<in>set new. search eng (search_query feature cdp) 2 (Some cdp) = Inr rs)"
  using assms
proof (induction cdps arbitrary: acc)
  case Nil
  then show ?case by simp
next
  case (Cons cdp cdps)
  from Cons.prems(1) obtain rs where rs: "search eng (search_query feature cdp) 2 (Some cdp) = Inr rs"
    by auto
  have rest: "\<forall>cdp\<in>set cdps. \<exists>rs. search eng (search_query feature cdp) 2 (Some cdp) = Inr rs"
    using Cons.prems(1) by simp
  have d: "distinct cdps" and notin: "cdp \<notin> set cdps" using Cons.prems(2) by simp_all
  have fresh: "cdp \<notin> fst ` set acc" using Cons.prems(3) by auto
  show ?case
  proof (cases "rs = []")
    case True
    have "fst ` set acc \<inter> set cdps = {}" using Cons.prems(3) by auto
    from Cons.IH[OF rest d this] obtain new where
      "comparison_results eng feature cdps acc = Inr (acc @ new)"
      "map fst new = filter (\<lambda>cdp. search eng (search_query feature cdp) 2 (Some cdp) \<noteq> Inr []) cdps"
      "\<forall>(cdp, rs)\<in>set new. search eng (search_query feature cdp) 2 (Some cdp) = Inr rs" by blast
    then show ?thesis using rs True by auto
  next
    case False
    let ?acc = "acc @ [(cdp, rs)]"
    have "fst ` set ?acc \<inter> set cdps = {}" using Cons.prems(3) notin by auto
    from Cons.IH[OF rest d this] obtain new where
      n: "comparison_results eng feature cdps ?acc = Inr (?acc @ new)"
      "map fst new = filter (\<lambda>cdp. search eng (search_query feature cdp) 2 (Some cdp) \<noteq> Inr []) cdps"
      "\<forall>(cdp, rs)\<in>set new. search eng (search_query feature cdp) 2 (Some cdp) = Inr rs" by blast
    have "comparison_results eng feature (cdp # cdps) acc = Inr (acc @ ((cdp, rs) # new))"
      using rs False n(1) by (simp add: update_fresh[OF fresh])
    moreover have "map fst ((cdp, rs) # new)
        = filter (\<lambda>cdp. search eng (search_query feature cdp) 2 (Some cdp) \<noteq> Inr []) (cdp # cdps)"
      using rs False n(2) by simp
    moreover have "\<forall>(cdp, rs)\<in>set ((cdp, rs) # new). search eng (search_query feature cdp) 2 (Some cdp) = Inr rs"
      using rs n(3) by simp
    ultimately show ?thesis by blast
  qed
qed

lemma first_feature_in: "first_feature ps s = Some f \<Longrightarrow> f \<in> snd ` set ps"
  by (induction ps s rule: first_feature.induct) (auto split: if_splits)

lemma feature_nonempty: "extract_feature_to_compare q = Some f \<Longrightarrow> f \<noteq> []"
proof -
  assume "extract_feature_to_compare q = Some f"
  then have "f \<in> snd ` set feature_patterns"
    unfolding extract_feature_to_compare_def by (rule first_feature_in)
  then show ?thesis by (auto simp: feature_patterns_def)
qed

lemma extracted_cdps:
  "extract_cdps_to_compare q = Some cdps \<Longrightarrow> distinct cdps \<and> 2 \<le> length cdps \<and> set cdps \<subseteq> set cdp_names"
  using distinct_cdp_names by (auto simp: extract_cdps_to_compare_def Let_def split: if_splits)

text \<open>
  C6: with at least two products and a feature extracted, every product is searched with
  the query "how to feature in product", \<open>top_k = 2\<close> and the product as filter. When
  no search raises, the outcome is a comparison that carries the whole product list in
  order and a result map whose keys are exactly the products with a non-empty search, in
  that order, each with its results; with no such product it is a comparison error.
\<close>

theorem compare_cdps_collects:
  assumes "is_comparison_question q"
    and "extract_cdps_to_compare q = Some cdps"
    and "extract_feature_to_compare q = Some feature"
    and "\<forall>cdp\<in>set cdps. \<exists>rs. search eng (''how to '' @ feature @ '' in '' @ cdp) 2 (Some cdp) = Inr rs"
  shows "\<exists>data.
           map fst data
             = filter (\<lambda>cdp. search eng (''how to '' @ feature @ '' in '' @ cdp) 2 (Some cdp) \<noteq> Inr []) cdps
         \<and> (\<forall>(cdp, rs)\<in>set data.
               search eng (''how to '' @ feature @ '' in '' @ cdp) 2 (Some cdp) = Inr rs)
         \<and> compare_cdps eng q
             = Inr (Some (if data = [] then ComparisonError (not_enough_message feature cdps)
                          else Comparison feature cdps data))"
proof -
  have sq: "''how to '' @ feature @ '' in '' @ cdp = search_query feature cdp" for cdp
    by (simp add: search_query_def)
  have d: "distinct cdps" and ne: "cdps \<noteq> []" using extracted_cdps[OF assms(2)] by auto
  have fne: "feature \<noteq> []" using feature_nonempty[OF assms(3)] .
  have "\<forall>cdp\<in>set cdps. \<exists>rs. search eng (search_query feature cdp) 2 (Some cdp) = Inr rs"
    using assms(4) unfolding sq .
  from comparison_results_shape[OF this d, of "[]"] obtain data where
    run: "comparison_results eng feature cdps [] = Inr data"
    and keys: "map fst data = filter (\<lambda>cdp. search eng (search_query feature cdp) 2 (Some cdp) \<noteq> Inr []) cdps"
    and vals: "\<forall>(cdp, rs)\<in>set data. search eng (search_query feature cdp) 2 (Some cdp) = Inr rs"
    by auto
  have "compare_cdps eng q
             = Inr (Some (if data = [] then ComparisonError (not_enough_message feature cdps)
                          else Comparison feature cdps data))"
    using assms(1,2,3) ne fne run by (simp add: compare_cdps_def)
  then show ?thesis using keys vals unfolding sq by blast
qed

text \<open>
  Segment has results, Zeotap has none: both are in the product list, only Segment is a
  key of the result map.
\<close>

theorem compare_cdps_collects_witness:
  "is_comparison_question ''Compare audience creation between Segment and Zeotap''
   \<and> extract_cdps_to_compare ''Compare audience creation between Segment and Zeotap''
       = Some [''segment'', ''zeotap'']
   \<and> extract_feature_to_compare ''Compare audience creation between Segment and Zeotap''
       = Some ''audience creation''
   \<and> (\<exists>rs. search example_engine (''how to '' @ ''audience creation'' @ '' in '' @ ''segment'') 2
                (Some ''segment'') = Inr rs)
   \<and> (\<exists>rs. search example_engine (''how to '' @ ''audience creation'' @ '' in '' @ ''zeotap'') 2
                (Some ''zeotap'') = Inr rs)
   \<and> (\<exists>data.
           map fst data
             = filter (\<lambda>cdp. search example_engine (''how to '' @ ''audience creation'' @ '' in '' @ cdp)
                                2 (Some cdp) \<noteq> Inr []) [''segment'', ''zeotap'']
         \<and> (\<forall>(cdp, rs)\<in>set data.
               search example_engine (''how to '' @ ''audience creation'' @ '' in '' @ cdp) 2 (Some cdp)
                 = Inr rs)
         \<and> compare_cdps example_engine ''Compare audience creation between Segment and Zeotap''
             = Inr (Some (if data = []
                          then ComparisonError
                                 (not_enough_message ''audience creation'' [''segment'', ''zeotap''])
                          else Comparison ''audience creation'' [''segment'', ''zeotap''] data)))
   \<and> compare_cdps example_engine ''Compare audience creation between Segment and Zeotap''
       = Inr (Some (Comparison ''audience creation'' [''segment'', ''zeotap'']
                      [(''segment'', [with_score (example_chunks ! 0) (1/2),
                                      with_score (example_chunks ! 2) (1/2)])]))"
proof -
  have a: "is_comparison_question ''Compare audience creation between Segment and Zeotap''"
    by code_simp
  have b: "extract_cdps_to_compare ''Compare audience creation between Segment and Zeotap''
             = Some [''segment'', ''zeotap'']"
    by code_simp
  have c: "extract_feature_to_compare ''Compare audience creation between Segment and Zeotap''
             = Some ''audience creation''"
    by code_simp
  have s1: "search example_engine (''how to '' @ ''audience creation'' @ '' in '' @ ''segment'') 2
              (Some ''segment'')
            = Inr [with_score (example_chunks ! 0) (1/2), with_score (example_chunks ! 2) (1/2)]"
    by code_simp
  have s2: "search example_engine (''how to '' @ ''audience creation'' @ '' in '' @ ''zeotap'') 2
              (Some ''zeotap'') = Inr []"
    by code_simp
  have d: "\<forall>cdp\<in>set [''segment'', ''zeotap''].
         \<exists>rs. search example_engine (''how to '' @ ''audience creation'' @ '' in '' @ cdp) 2 (Some cdp)
                = Inr rs"
    using s1 s2 by simp
  have e: "compare_cdps example_engine ''Compare audience creation between Segment and Zeotap''
       = Inr (Some (Comparison ''audience creation'' [''segment'', ''zeotap'']
                      [(''segment'', [with_score (example_chunks ! 0) (1/2),
                                      with_score (example_chunks ! 2) (1/2)])]))"
    by code_simp
  have d1: "\<exists>rs. search example_engine (''how to '' @ ''audience creation'' @ '' in '' @ ''segment'') 2
                (Some ''segment'') = Inr rs" using s1 by blast
  have d2: "\<exists>rs. search example_engine (''how to '' @ ''audience creation'' @ '' in '' @ ''zeotap'') 2
                (Some ''zeotap'') = Inr rs" using s2 by blast
  show ?thesis using a b c d1 d2 e compare_cdps_collects[OF a b c d] by blast
qed

end
